theory Spec2Isabelle
  imports Main "HOL-Library.Word"
begin

unbundle bit_operations_syntax

section \<open>Data model\<close>

text \<open>
  Machine types of \<^verbatim>\<open>matrix_compressor.cpp\<close>. A \<^verbatim>\<open>float\<close> is kept as its IEEE-754
  binary32 bit pattern, so that "bit-exact" is plain equality. \<^verbatim>\<open>size_t\<close> values are
  \<open>nat\<close>: every size below is the size of a container that exists in memory.
\<close>

type_synonym uint8_t = "8 word"
type_synonym uint32_t = "32 word"
type_synonym float = "32 word"

text \<open>
  The comparison \<^verbatim>\<open>x != 0\<close> on a float: the literal is converted to \<^verbatim>\<open>0.0f\<close> and the
  IEEE comparison is false exactly for \<open>+0.0\<close> (pattern \<open>0x00000000\<close>) and \<open>-0.0\<close>
  (pattern \<open>0x80000000\<close>); it is true for every other pattern, NaN included.
\<close>

definition float_ne_zero :: "float \<Rightarrow> bool" where
  "float_ne_zero x \<longleftrightarrow> x AND 0x7FFFFFFF \<noteq> 0"

text \<open>
  The exceptions of the source are \<open>invalid_argument\<close> (\<^verbatim>\<open>std::invalid_argument\<close>, the
  specification's InvalidArgument) and \<open>runtime_error\<close> (\<^verbatim>\<open>std::runtime_error\<close>, the
  specification's CodecError). The other three mark undefined behaviour of the C++
  program: overflow of an \<^verbatim>\<open>int\<close> loop counter, an access outside a container, and an
  integer division by zero.
\<close>

datatype error = invalid_argument | runtime_error | SignedOverflow | OutOfBounds | DivisionByZero

definition INT_MAX :: nat where
  "INT_MAX = 2 ^ 31 - 1"

text \<open>
  \<^verbatim>\<open>blaze::DynamicVector<float>\<close> is a \<open>float list\<close>. \<^verbatim>\<open>blaze::DynamicMatrix<float>\<close>
  (row-major) is its two dimensions and its elements in row-major order;
  \<^verbatim>\<open>matrix(i, j)\<close> reads element \<open>i * columns + j\<close>.
\<close>

record DynamicMatrix =
  rows :: nat
  columns :: nat
  elements :: "float list"

definition wf_matrix :: "DynamicMatrix \<Rightarrow> bool" where
  "wf_matrix m \<longleftrightarrow> length (elements m) = rows m * columns m"

definition at :: "DynamicMatrix \<Rightarrow> nat \<Rightarrow> nat \<Rightarrow> float" where
  "at m i j = elements m ! (i * columns m + j)"

text \<open>\<^verbatim>\<open>nonZeros()\<close> of a dense Blaze container counts the elements that are not zero.\<close>

definition nonZeros :: "float list \<Rightarrow> nat" where
  "nonZeros v = length (filter float_ne_zero v)"

text \<open>
  Modelled from the spec: the declarations of \<^verbatim>\<open>ArchivedVector\<close> and \<^verbatim>\<open>ArchivedMatrix\<close>
  (header \<^verbatim>\<open>matrix_compressor/matrix_compressor.h\<close>). The field names and their order are
  those the source uses (\<open>size\<close> and \<open>values\<close> with a suffix, and the fields of the matrix
  archive with the suffix \<open>_m\<close>); the counts are \<^verbatim>\<open>size_t\<close>, as the braced
  initialisers of the source require. A value-initialised archive (\<^verbatim>\<open>return {}\<close>) has
  \<open>is_valid = false\<close>, zero counts and empty byte vectors.
\<close>

record ArchivedVector =
  is_valid :: bool
  nonzero :: nat
  size_v :: nat
  indexes :: "uint8_t list"
  values_v :: "uint8_t list"

record ArchivedMatrix =
  is_valid_m :: bool
  nonzero_m :: nat
  rows_number :: nat
  cols_number :: nat
  indexes_m :: "uint8_t list"
  values_m :: "uint8_t list"

definition default_ArchivedVector :: ArchivedVector where
  "default_ArchivedVector =
     \<lparr>is_valid = False, nonzero = 0, size_v = 0, indexes = [], values_v = []\<rparr>"

section \<open>The external codecs\<close>

text \<open>
  The stream of \<^verbatim>\<open>fpzip.h\<close>: the public fields the source assigns, the memory the stream
  was opened on, and the position of the stream in it.
\<close>

record FPZ =
  fpz_type :: int
  prec :: int
  nx :: int
  ny :: int
  nz :: int
  nf :: int
  memory :: "uint8_t list"
  cursor :: nat

text \<open>
  The functions of streamvbyte and fpzip that the source calls are parameters of the
  model. An encoder takes the output buffer and returns it as it has left it, with its
  return value; a decoder returns the values it has written to the start of the output
  buffer.
  \<^item> \<open>streamvbyte_delta_encode in count out prev\<close>
  \<^item> \<open>streamvbyte_delta_decode in count prev\<close>
  \<^item> \<open>fpzip_write_to_buffer buffer size\<close>, \<open>fpzip_read_from_buffer buffer\<close>
  \<^item> \<open>fpzip_write_header fpz\<close>, \<open>fpzip_write fpz data\<close>
  \<^item> \<open>fpzip_read_header fpz\<close>, \<open>fpzip_read fpz\<close>
\<close>

record codecs =
  STREAMVBYTE_PADDING :: nat
  streamvbyte_max_compressedbytes :: "uint32_t \<Rightarrow> nat"
  streamvbyte_delta_encode ::
    "uint32_t list \<Rightarrow> uint32_t \<Rightarrow> uint8_t list \<Rightarrow> uint32_t \<Rightarrow> uint8_t list \<times> nat"
  streamvbyte_delta_decode :: "uint8_t list \<Rightarrow> uint32_t \<Rightarrow> uint32_t \<Rightarrow> uint32_t list"
  fpzip_write_to_buffer :: "uint8_t list \<Rightarrow> nat \<Rightarrow> FPZ"
  fpzip_write_header :: "FPZ \<Rightarrow> FPZ \<times> nat"
  fpzip_write :: "FPZ \<Rightarrow> float list \<Rightarrow> FPZ \<times> nat"
  fpzip_read_from_buffer :: "uint8_t list \<Rightarrow> FPZ"
  fpzip_read_header :: "FPZ \<Rightarrow> FPZ \<times> nat"
  fpzip_read :: "FPZ \<Rightarrow> float list \<times> nat"

definition FPZIP_TYPE_FLOAT :: int where
  "FPZIP_TYPE_FLOAT = 0"

text \<open>\<^verbatim>\<open>std::vector::resize\<close>: cut, or extend with value-initialised (zero) elements.\<close>

definition resize :: "nat \<Rightarrow> ('a::zero) list \<Rightarrow> 'a list" where
  "resize n xs = take n xs @ replicate (n - length xs) 0"

text \<open>
  A callee that is handed \<^verbatim>\<open>buf.data()\<close> writes elements of the buffer and cannot change
  its size: \<open>store xs buf\<close> is the buffer after \<open>xs\<close> was written at its start. What a
  callee writes past the end of the buffer is not part of the buffer and is dropped.
\<close>

definition store :: "'a list \<Rightarrow> 'a list \<Rightarrow> 'a list" where
  "store xs buf = take (length buf) xs @ drop (length xs) buf"

text \<open>The implicit conversion of a \<^verbatim>\<open>size_t\<close> to \<^verbatim>\<open>int\<close> (in \<^verbatim>\<open>fpz->nx = N\<close>).\<close>

definition int_of_size_t :: "nat \<Rightarrow> int" where
  "int_of_size_t n = signed_take_bit 31 (int n)"

section \<open>Codec adapters\<close>

definition CompressIndexes ::
  "codecs \<Rightarrow> uint32_t list \<Rightarrow> uint8_t list \<Rightarrow> uint8_t list \<times> nat" where
  "CompressIndexes c idx compressed =
     (let buf = resize (streamvbyte_max_compressedbytes c (of_nat (length idx))) compressed;
          (buf', written) = streamvbyte_delta_encode c idx (of_nat (length idx)) buf 0;
          compressed_size = written + STREAMVBYTE_PADDING c
      in (resize compressed_size buf', compressed_size))"

definition DecompressIndexes ::
  "codecs \<Rightarrow> uint8_t list \<Rightarrow> uint32_t list \<Rightarrow> uint32_t list" where
  "DecompressIndexes c compressed idx =
     store (streamvbyte_delta_decode c compressed (of_nat (length idx)) 0) idx"

text \<open>
  \<^verbatim>\<open>CompressValues\<close> up to the assignment of the stream's fields: the buffer is sized
  \<^verbatim>\<open>sizeof(float) * N + 1024\<close> and the stream is opened on it.
\<close>

definition CompressValues_stream :: "codecs \<Rightarrow> float list \<Rightarrow> uint8_t list \<Rightarrow> int \<Rightarrow> FPZ" where
  "CompressValues_stream c vals compressed precision =
     (let N = length vals;
          buffer_size = 4 * N + 1024;
          buf = resize buffer_size compressed
      in (fpzip_write_to_buffer c buf (length buf))
           \<lparr>fpz_type := FPZIP_TYPE_FLOAT, prec := precision,
            nx := int_of_size_t N, ny := 1, nz := 1, nf := 1\<rparr>)"

definition CompressValues ::
  "codecs \<Rightarrow> float list \<Rightarrow> uint8_t list \<Rightarrow> int \<Rightarrow> error + (uint8_t list \<times> nat)" where
  "CompressValues c vals compressed precision =
     (let fpz = CompressValues_stream c vals compressed precision;
          (fpz1, hs) = fpzip_write_header c fpz
      in if hs = 0 then Inl runtime_error
         else
           (let (fpz2, ds) = fpzip_write c fpz1 vals
            in if ds = 0 then Inl runtime_error
               else Inr (resize (hs + ds) (memory fpz2), hs + ds)))"

definition DecompressValues ::
  "codecs \<Rightarrow> uint8_t list \<Rightarrow> float list \<Rightarrow> error + float list" where
  "DecompressValues c compressed vals =
     (let fpz = fpzip_read_from_buffer c compressed;
          (fpz1, rh) = fpzip_read_header c fpz
      in if rh = 0 then Inl runtime_error
         else
           (let (decoded, rd) = fpzip_read c fpz1
            in if rd = 0 then Inl runtime_error
               else Inr (store decoded vals)))"

section \<open>Dense-to-sparse conversion\<close>

text \<open>
  The loops of \<^verbatim>\<open>ConvertToCSR\<close>. Both counters are declared \<^verbatim>\<open>auto i = 0\<close>, that is
  \<^verbatim>\<open>int\<close>: an iteration at \<open>INT_MAX\<close> ends in the overflow of \<^verbatim>\<open>++i\<close>, whatever its
  body has appended, so the test for it comes first here. The linear index is computed
  in \<^verbatim>\<open>size_t\<close> (the counters are below \<open>2 ^ 31\<close>, so the product does not leave 64
  bits) and cut to 32 bits by the \<^verbatim>\<open>static_cast\<close>.
\<close>

function ConvertToCSR_cols ::
  "DynamicMatrix \<Rightarrow> nat \<Rightarrow> nat \<Rightarrow> uint32_t list \<Rightarrow> float list
     \<Rightarrow> error + (uint32_t list \<times> float list)" where
  "ConvertToCSR_cols matrix i j idx vals =
     (if j < columns matrix then
        (if j = INT_MAX then Inl SignedOverflow
         else if float_ne_zero (at matrix i j) then
           ConvertToCSR_cols matrix i (j + 1)
             (idx @ [of_nat (i * columns matrix + j)]) (vals @ [at matrix i j])
         else ConvertToCSR_cols matrix i (j + 1) idx vals)
      else Inr (idx, vals))"
  by pat_completeness auto
termination
  by (relation "measure (\<lambda>(matrix, i, j, idx, vals). columns matrix - j)") auto

function ConvertToCSR_rows ::
  "DynamicMatrix \<Rightarrow> nat \<Rightarrow> uint32_t list \<Rightarrow> float list
     \<Rightarrow> error + (uint32_t list \<times> float list)" where
  "ConvertToCSR_rows matrix i idx vals =
     (if i < rows matrix then
        (case ConvertToCSR_cols matrix i 0 idx vals of
           Inl e \<Rightarrow> Inl e
         | Inr (idx', vals') \<Rightarrow>
             if i = INT_MAX then Inl SignedOverflow
             else ConvertToCSR_rows matrix (i + 1) idx' vals')
      else Inr (idx, vals))"
  by pat_completeness auto
termination
  by (relation "measure (\<lambda>(matrix, i, idx, vals). rows matrix - i)") auto

definition ConvertToCSR :: "DynamicMatrix \<Rightarrow> error + (uint32_t list \<times> float list)" where
  "ConvertToCSR matrix =
     (if rows matrix = 0 \<or> columns matrix = 0 then Inl invalid_argument
      else ConvertToCSR_rows matrix 0 [] [])"

text \<open>
  The loop of \<^verbatim>\<open>ConvertFromCSR\<close>. The division and the element accesses of the source
  are unchecked; here a zero divisor and an access outside \<open>values\<close> or outside the
  matrix are results of their own. The matrix is constructed zero-filled (the
  initialiser is written \<^verbatim>\<open>0.0f:\<close> in line 47 of the source and read as \<^verbatim>\<open>0.0f\<close>).
\<close>

function ConvertFromCSR_fill ::
  "uint32_t list \<Rightarrow> float list \<Rightarrow> nat \<Rightarrow> nat \<Rightarrow> DynamicMatrix \<Rightarrow> error + DynamicMatrix" where
  "ConvertFromCSR_fill idx vals cols i matrix =
     (if i < length idx then
        (if cols = 0 then Inl DivisionByZero
         else
           (let row = unat (idx ! i) div cols;
                col = unat (idx ! i) mod cols
            in if row < rows matrix \<and> col < columns matrix \<and> i < length vals then
                 ConvertFromCSR_fill idx vals cols (i + 1)
                   (matrix\<lparr>elements := (elements matrix)[row * columns matrix + col := vals ! i]\<rparr>)
               else Inl OutOfBounds))
      else Inr matrix)"
  by pat_completeness auto
termination
  by (relation "measure (\<lambda>(idx, vals, cols, i, matrix). length idx - i)") auto

definition ConvertFromCSR ::
  "uint32_t list \<Rightarrow> float list \<Rightarrow> ArchivedMatrix \<Rightarrow> error + DynamicMatrix" where
  "ConvertFromCSR idx vals compressed =
     ConvertFromCSR_fill idx vals (cols_number compressed) 0
       \<lparr>rows = rows_number compressed, columns = cols_number compressed,
        elements = replicate (rows_number compressed * cols_number compressed) 0\<rparr>"

section \<open>The compressor\<close>

text \<open>The extraction loop of the vector \<^verbatim>\<open>Compress\<close>; its counter is an \<^verbatim>\<open>int\<close> too.\<close>

function Compress_fill ::
  "float list \<Rightarrow> nat \<Rightarrow> uint32_t list \<Rightarrow> float list \<Rightarrow> error + (uint32_t list \<times> float list)" where
  "Compress_fill vector i idx vals =
     (if i < length vector then
        (if i = INT_MAX then Inl SignedOverflow
         else if float_ne_zero (vector ! i) then
           Compress_fill vector (i + 1) (idx @ [of_nat i]) (vals @ [vector ! i])
         else Compress_fill vector (i + 1) idx vals)
      else Inr (idx, vals))"
  by pat_completeness auto
termination
  by (relation "measure (\<lambda>(vector, i, idx, vals). length vector - i)") auto

definition Compress_vector :: "codecs \<Rightarrow> float list \<Rightarrow> int \<Rightarrow> error + ArchivedVector" where
  "Compress_vector c vector precision =
     (if length vector = 0 then Inr default_ArchivedVector
      else if nonZeros vector = 0 then Inr default_ArchivedVector
      else
        (case Compress_fill vector 0 [] [] of
           Inl e \<Rightarrow> Inl e
         | Inr (idx, vals) \<Rightarrow>
             (let (compressed_indexes, compressed_indexes_size) = CompressIndexes c idx []
              in case CompressValues c vals [] precision of
                   Inl e \<Rightarrow> Inl e
                 | Inr (compressed_values, compressed_values_size) \<Rightarrow>
                     Inr \<lparr>is_valid = True, nonzero = length idx, size_v = length vector,
                          indexes = compressed_indexes, values_v = compressed_values\<rparr>)))"

text \<open>The scatter loop of the vector \<^verbatim>\<open>Decompress\<close>, its accesses checked as above.\<close>

function Decompress_scatter ::
  "uint32_t list \<Rightarrow> float list \<Rightarrow> nat \<Rightarrow> nat \<Rightarrow> float list \<Rightarrow> error + float list" where
  "Decompress_scatter idx vals n i vector =
     (if i < n then
        (if i < length idx \<and> i < length vals \<and> unat (idx ! i) < length vector then
           Decompress_scatter idx vals n (i + 1) (vector[unat (idx ! i) := vals ! i])
         else Inl OutOfBounds)
      else Inr vector)"
  by pat_completeness auto
termination
  by (relation "measure (\<lambda>(idx, vals, n, i, vector). n - i)") auto

definition Decompress_vector :: "codecs \<Rightarrow> ArchivedVector \<Rightarrow> error + float list" where
  "Decompress_vector c compressed =
     (if \<not> is_valid compressed then Inr []
      else
        (let idx = DecompressIndexes c (indexes compressed) (resize (nonzero compressed) [])
         in case DecompressValues c (values_v compressed) (resize (nonzero compressed) []) of
              Inl e \<Rightarrow> Inl e
            | Inr vals \<Rightarrow>
                Decompress_scatter idx vals (nonzero compressed) 0
                  (replicate (size_v compressed) 0)))"

definition Compress_matrix :: "codecs \<Rightarrow> DynamicMatrix \<Rightarrow> int \<Rightarrow> error + ArchivedMatrix" where
  "Compress_matrix c matrix precision =
     (case ConvertToCSR matrix of
        Inl e \<Rightarrow> Inl e
      | Inr (idx, vals) \<Rightarrow>
          (let archived_matrix =
                 \<lparr>is_valid_m = True, nonzero_m = length vals, rows_number = rows matrix,
                  cols_number = columns matrix, indexes_m = [], values_m = []\<rparr>;
               (compressed_indexes, compressed_indexes_size) =
                 CompressIndexes c idx (indexes_m archived_matrix)
           in case CompressValues c vals (values_m archived_matrix) precision of
                Inl e \<Rightarrow> Inl e
              | Inr (compressed_values, compressed_values_size) \<Rightarrow>
                  Inr (archived_matrix\<lparr>indexes_m := compressed_indexes,
                                      values_m := compressed_values\<rparr>)))"

definition Decompress_matrix :: "codecs \<Rightarrow> ArchivedMatrix \<Rightarrow> error + DynamicMatrix" where
  "Decompress_matrix c compressed =
     (if \<not> is_valid_m compressed then Inl invalid_argument
      else
        (let idx = DecompressIndexes c (indexes_m compressed) (resize (nonzero_m compressed) [])
         in case DecompressValues c (values_m compressed) (resize (nonzero_m compressed) []) of
              Inl e \<Rightarrow> Inl e
            | Inr vals \<Rightarrow> ConvertFromCSR idx vals compressed))"

section \<open>A reference codec\<close>

text \<open>
  One instance of the codec interface, used to evaluate the compressor on concrete
  inputs: every 32-bit value is written as its four bytes, least significant first;
  the float stream has a four-byte header holding \<open>nx\<close> and ends with one marker byte.
  The buffer bound and the padding are those of \<^verbatim>\<open>streamvbyte.h\<close>.
\<close>

definition bytes_of_word :: "32 word \<Rightarrow> uint8_t list" where
  "bytes_of_word w =
     [ucast w, ucast (drop_bit 8 w), ucast (drop_bit 16 w), ucast (drop_bit 24 w)]"

definition word_of_bytes :: "uint8_t list \<Rightarrow> 32 word" where
  "word_of_bytes bs =
     (case bs of
        [a, b, c, d] \<Rightarrow>
          ucast a OR push_bit 8 (ucast b) OR push_bit 16 (ucast c) OR push_bit 24 (ucast d)
      | _ \<Rightarrow> 0)"

definition raw_encode :: "32 word list \<Rightarrow> uint8_t list" where
  "raw_encode xs = concat (map bytes_of_word xs)"

fun raw_decode :: "uint8_t list \<Rightarrow> nat \<Rightarrow> 32 word list" where
  "raw_decode bs 0 = []"
| "raw_decode bs (Suc n) = word_of_bytes (take 4 bs) # raw_decode (drop 4 bs) n"

definition store_at :: "nat \<Rightarrow> 'a list \<Rightarrow> 'a list \<Rightarrow> 'a list" where
  "store_at pos xs buf = take pos buf @ store xs (drop pos buf)"

definition raw_codecs :: codecs where
  "raw_codecs =
     \<lparr>STREAMVBYTE_PADDING = 16,
      streamvbyte_max_compressedbytes = (\<lambda>n. (unat n + 3) div 4 + 4 * unat n + 16),
      streamvbyte_delta_encode =
        (\<lambda>inp count out prev.
           (store (raw_encode (take (unat count) inp)) out, 4 * min (unat count) (length inp))),
      streamvbyte_delta_decode = (\<lambda>inp count prev. raw_decode inp (unat count)),
      fpzip_write_to_buffer =
        (\<lambda>buffer sz. \<lparr>fpz_type = 0, prec = 0, nx = 1, ny = 1, nz = 1, nf = 1,
                       memory = buffer, cursor = 0\<rparr>),
      fpzip_write_header =
        (\<lambda>fpz. (fpz\<lparr>memory := store_at (cursor fpz) (bytes_of_word (word_of_int (nx fpz)))
                                   (memory fpz),
                     cursor := cursor fpz + 4\<rparr>, 4)),
      fpzip_write =
        (\<lambda>fpz data.
           (fpz\<lparr>memory := store_at (cursor fpz) (raw_encode (take (nat (nx fpz)) data) @ [1])
                              (memory fpz),
                cursor := cursor fpz + 4 * min (nat (nx fpz)) (length data) + 1\<rparr>,
            4 * min (nat (nx fpz)) (length data) + 1)),
      fpzip_read_from_buffer =
        (\<lambda>buffer. \<lparr>fpz_type = 0, prec = 0, nx = 1, ny = 1, nz = 1, nf = 1,
                    memory = buffer, cursor = 0\<rparr>),
      fpzip_read_header =
        (\<lambda>fpz. if length (memory fpz) < cursor fpz + 4 then (fpz, 0)
               else (fpz\<lparr>nx := uint (word_of_bytes (take 4 (drop (cursor fpz) (memory fpz)))),
                         cursor := cursor fpz + 4\<rparr>, 4)),
      fpzip_read =
        (\<lambda>fpz. (raw_decode (drop (cursor fpz) (memory fpz)) (nat (nx fpz)),
                4 * nat (nx fpz) + 1))\<rparr>"

section \<open>Notions of the specification\<close>

text \<open>
  The positions \<open>(row, col)\<close> of the entries of a matrix that compare unequal to zero,
  in row-major scan order.
\<close>

definition nonzero_positions :: "DynamicMatrix \<Rightarrow> (nat \<times> nat) list" where
  "nonzero_positions m =
     concat (map (\<lambda>i. map (\<lambda>j. (i, j)) (filter (\<lambda>j. float_ne_zero (at m i j)) [0..<columns m]))
                 [0..<rows m])"

text \<open>
  The indices of the entries of a vector that compare unequal to zero, ascending.
\<close>

definition vector_positions :: "float list \<Rightarrow> nat list" where
  "vector_positions v = filter (\<lambda>k. float_ne_zero (v ! k)) [0..<length v]"

text \<open>A float with a negative zero replaced by \<open>+0.0\<close>; every other value is kept.\<close>

definition normalize_zero :: "float \<Rightarrow> float" where
  "normalize_zero x = (if float_ne_zero x then x else 0)"

text \<open>
  The reconstruction the specification describes: the zero-filled matrix of \<open>R\<close> rows
  and \<open>C\<close> columns, with each value written at row \<open>index div C\<close> and column
  \<open>index mod C\<close>, in the order of the sequences.
\<close>

definition scatter_dense :: "nat \<Rightarrow> nat \<Rightarrow> uint32_t list \<Rightarrow> float list \<Rightarrow> DynamicMatrix" where
  "scatter_dense R C idx vals =
     \<lparr>rows = R, columns = C,
      elements = fold (\<lambda>(x, w) es. es[(unat x div C) * C + unat x mod C := w]) (zip idx vals)
                   (replicate (R * C) 0)\<rparr>"

text \<open>An entry whose bit pattern is not the all-zero pattern; \<open>-0.0\<close> is one.\<close>

definition bit_nonzero :: "float \<Rightarrow> bool" where
  "bit_nonzero x \<longleftrightarrow> x \<noteq> 0"

text \<open>
  What the codecs report to the adapters: the return value of
  \<^verbatim>\<open>streamvbyte_delta_encode\<close> in \<^verbatim>\<open>CompressIndexes\<close>, and the return values \<open>hs\<close> of
  \<^verbatim>\<open>fpzip_write_header\<close> and \<open>ds\<close> of \<^verbatim>\<open>fpzip_write\<close> in \<^verbatim>\<open>CompressValues\<close>.
\<close>

definition index_reported :: "codecs \<Rightarrow> uint32_t list \<Rightarrow> uint8_t list \<Rightarrow> nat" where
  "index_reported c idx compressed =
     snd (streamvbyte_delta_encode c idx (of_nat (length idx))
            (resize (streamvbyte_max_compressedbytes c (of_nat (length idx))) compressed) 0)"

definition header_reported :: "codecs \<Rightarrow> float list \<Rightarrow> uint8_t list \<Rightarrow> int \<Rightarrow> nat" where
  "header_reported c vals compressed precision =
     snd (fpzip_write_header c (CompressValues_stream c vals compressed precision))"

definition payload_reported :: "codecs \<Rightarrow> float list \<Rightarrow> uint8_t list \<Rightarrow> int \<Rightarrow> nat" where
  "payload_reported c vals compressed precision =
     snd (fpzip_write c
            (fst (fpzip_write_header c (CompressValues_stream c vals compressed precision))) vals)"

text \<open>
  The contracts of the external codecs, stated on the functions of the libraries.

  streamvbyte: when \<open>count\<close> values are there to read and the output buffer has at
  least \<open>streamvbyte_max_compressedbytes count\<close> bytes, the encoder keeps the size of the
  buffer, leaves room for the padding after the bytes it reports, and the decoder
  returns the first \<open>count\<close> values from these bytes, whatever follows them.

  fpzip: for a nonempty sequence of \<open>N \<le> INT_MAX\<close> floats, a stream opened on a buffer
  of at least \<open>4 * N + 1024\<close> bytes with type float, precision 0 and dimensions
  \<open>N, 1, 1, 1\<close> writes a header and a payload of nonzero reported lengths \<open>hs\<close> and
  \<open>ds\<close> inside the buffer, and a stream opened on the first \<open>hs + ds\<close> bytes reads the
  header and the same floats back.
\<close>

definition streamvbyte_contract :: "codecs \<Rightarrow> bool" where
  "streamvbyte_contract c \<longleftrightarrow>
     (\<forall>inp count out prev.
        unat count \<le> length inp \<and> streamvbyte_max_compressedbytes c count \<le> length out \<longrightarrow>
        (case streamvbyte_delta_encode c inp count out prev of
           (out', written) \<Rightarrow>
             length out' = length out \<and>
             written + STREAMVBYTE_PADDING c \<le> length out' \<and>
             (\<forall>rest. streamvbyte_delta_decode c (take written out' @ rest) count prev =
                     take (unat count) inp)))"

definition fpzip_lossless :: "codecs \<Rightarrow> bool" where
  "fpzip_lossless c \<longleftrightarrow>
     (\<forall>vals buffer.
        0 < length vals \<and> length vals \<le> INT_MAX \<and> 4 * length vals + 1024 \<le> length buffer \<longrightarrow>
        (case fpzip_write_header c
                ((fpzip_write_to_buffer c buffer (length buffer))
                   \<lparr>fpz_type := FPZIP_TYPE_FLOAT, prec := 0, nx := int (length vals),
                    ny := 1, nz := 1, nf := 1\<rparr>) of
           (fpz1, hs) \<Rightarrow>
             (case fpzip_write c fpz1 vals of
                (fpz2, ds) \<Rightarrow>
                  hs \<noteq> 0 \<and> ds \<noteq> 0 \<and> hs + ds \<le> length (memory fpz2) \<and>
                  (case fpzip_read_header c
                          (fpzip_read_from_buffer c (take (hs + ds) (memory fpz2))) of
                     (fpz3, rh) \<Rightarrow>
                       rh \<noteq> 0 \<and>
                       (case fpzip_read c fpz3 of
                          (decoded, rd) \<Rightarrow> rd \<noteq> 0 \<and> decoded = vals)))))"

text \<open>
  What the index contract gives the two index adapters: the adapters pass the length of
  the sequence as a 32-bit \<open>count\<close>, so the first \<open>count\<close> indices come back and the
  rest of the output buffer keeps its zeros.
\<close>

definition index_codec_faithful :: "codecs \<Rightarrow> bool" where
  "index_codec_faithful c \<longleftrightarrow>
     (\<forall>idx. DecompressIndexes c (fst (CompressIndexes c idx [])) (resize (length idx) []) =
            take (unat (of_nat (length idx) :: uint32_t)) idx @
            replicate (length idx - unat (of_nat (length idx) :: uint32_t)) 0)"

text \<open>An index codec that reports a zero-length result on every input.\<close>

definition silent_index_codecs :: codecs where
  "silent_index_codecs =
     raw_codecs\<lparr>streamvbyte_delta_encode := (\<lambda>inp count out prev. (out, 0))\<rparr>"

text \<open>A value codec whose header write fails: it reports zero bytes.\<close>

definition failing_value_codecs :: codecs where
  "failing_value_codecs = raw_codecs\<lparr>fpzip_write_header := (\<lambda>fpz. (fpz, 0))\<rparr>"

section \<open>Example inputs\<close>

text \<open>
  The matrix \<open>[[1,0,0,2],[0,0,3,0],[0,4,0,0],[0,0,0,5]]\<close> of the specification; the
  entries are the binary32 patterns of 1.0, 2.0, 3.0, 4.0 and 5.0.
\<close>

definition matrix_4x4 :: DynamicMatrix where
  "matrix_4x4 =
     \<lparr>rows = 4, columns = 4,
      elements = [0x3F800000, 0, 0, 0x40000000,
                  0, 0, 0x40400000, 0,
                  0, 0x40800000, 0, 0,
                  0, 0, 0, 0x40A00000]\<rparr>"

text \<open>
  A matrix of 3 rows and \<open>2 ^ 31 - 1\<close> columns, all zero except for 1.0 at
  \<open>(row 0, column 5)\<close> and at \<open>(row 2, column 2)\<close>, whose linear offsets are 5 and
  \<open>2 * (2 ^ 31 - 1) + 2 = 2 ^ 32\<close>.
\<close>

definition big_matrix :: DynamicMatrix where
  "big_matrix =
     \<lparr>rows = 3, columns = 2147483647,
      elements = (replicate 6442450941 0)[5 := 0x3F800000, 4294967296 := 0x3F800000]\<rparr>"

section \<open>Properties of the model\<close>

declare ConvertToCSR_cols.simps [simp del] ConvertToCSR_rows.simps [simp del]
  ConvertFromCSR_fill.simps [simp del] Compress_fill.simps [simp del]
  Decompress_scatter.simps [simp del]

subsection \<open>Buffers\<close>

text \<open>\<open>resize\<close> fixes the length of a buffer, \<open>store\<close> keeps it.\<close>

lemma length_resize [simp]: "length (resize n xs) = n"
  by (simp add: resize_def)

lemma resize_Nil [simp]: "resize n [] = replicate n 0"
  by (simp add: resize_def)

lemma length_store [simp]: "length (store xs buf) = length buf"
  by (simp add: store_def)

lemma store_fits: "length xs \<le> length buf \<Longrightarrow> store xs buf = xs @ drop (length xs) buf"
  by (simp add: store_def)

lemma store_at_fits:
  "pos + length xs \<le> length buf \<Longrightarrow>
   store_at pos xs buf = take pos buf @ xs @ drop (pos + length xs) buf"
  by (simp add: store_at_def store_fits add.commute)


subsection \<open>Conversions\<close>

text \<open>
  The cast of an offset to \<^verbatim>\<open>uint32_t\<close> is exact below \<open>2 ^ 32\<close> and never increases it;
  the conversion of a size to \<^verbatim>\<open>int\<close> is exact up to \<open>INT_MAX\<close>.
\<close>

lemma unat_of_nat32: "n < 2 ^ 32 \<Longrightarrow> unat (of_nat n :: uint32_t) = n"
  by (simp add: unat_of_nat)

lemma unat_of_nat32_le: "unat (of_nat n :: uint32_t) \<le> n"
  by (simp add: unat_of_nat)

lemma int_of_size_t_small: "n \<le> INT_MAX \<Longrightarrow> int_of_size_t n = int n"
  unfolding int_of_size_t_def INT_MAX_def
  by (rule signed_take_bit_int_eq_self) simp_all

lemma sorted_wrt_unat: "sorted_wrt (<) (map unat xs) \<longleftrightarrow> sorted_wrt (<) (xs :: uint32_t list)"
  by (simp add: sorted_wrt_map word_less_nat_alt [symmetric])


subsection \<open>Lists\<close>

text \<open>Facts about \<open>filter\<close>, \<open>fold\<close> and intervals that the loops need.\<close>

lemma filter_as_positions:
  "map ((!) xs) (filter (\<lambda>k. P (xs ! k)) [0..<length xs]) = filter P xs"
proof -
  have "filter P (map ((!) xs) [0..<length xs]) =
        map ((!) xs) (filter (P \<circ> (!) xs) [0..<length xs])"
    by (rule filter_map)
  then show ?thesis by (simp add: map_nth comp_def)
qed

lemma fold_update_length [simp]:
  "length (fold (\<lambda>k vec. vec[k := f k]) ks vec) = length vec"
  by (induction ks arbitrary: vec) auto

lemma fold_update_nth:
  "j < length vec \<Longrightarrow>
   fold (\<lambda>k vec. vec[k := f k]) ks vec ! j = (if j \<in> set ks then f j else vec ! j)"
  by (induction ks arbitrary: vec) (auto simp: nth_list_update)

lemma upt_rowmajor:
  "concat (map (\<lambda>i. map (\<lambda>j. i * C + j) [0..<C]) [0..<R]) = [0..<R * C]"
proof (induction R)
  case 0
  show ?case by simp
next
  case (Suc R)
  have "map (\<lambda>j. R * C + j) [0..<C] = [R * C..<R * C + C]"
    using map_add_upt [of "R * C" C] by (simp add: add.commute)
  moreover have "[0..<R * C + C] = [0..<R * C] @ [R * C..<R * C + C]"
    by (rule upt_add_eq_append) simp
  ultimately show ?case using Suc by (simp add: add.commute)
qed

lemma sorted_filter_upt: "sorted_wrt (<) (filter P [0..<n])"
  by (rule sorted_wrt_filter) (rule sorted_wrt_upt)

lemma filter_upt_two:
  assumes "a < b" "b < n"
  shows "filter (\<lambda>k. k = a \<or> k = b) [0..<n] = [a, b]"
proof (rule sorted_distinct_set_unique)
  show "sorted (filter (\<lambda>k. k = a \<or> k = b) [0..<n])" by (simp add: sorted_wrt_filter)
  show "distinct (filter (\<lambda>k. k = a \<or> k = b) [0..<n])" by simp
  show "sorted [a, b]" using assms by simp
  show "distinct [a, b]" using assms by simp
  show "set (filter (\<lambda>k. k = a \<or> k = b) [0..<n]) = set [a, b]" using assms by auto
qed

lemma linear_index_bound: "i < R \<Longrightarrow> j < C \<Longrightarrow> i * C + j < R * (C :: nat)"
proof -
  assume "i < R" and "j < C"
  then have "i * C + j < Suc i * C" by simp
  also have "\<dots> \<le> R * C" using \<open>i < R\<close> by (intro mult_le_mono1) simp
  finally show ?thesis .
qed


subsection \<open>The extraction loop of a vector\<close>

text \<open>
  The loop of the vector \<^verbatim>\<open>Compress\<close> in closed form: it overflows its counter when the
  vector has more than \<open>INT_MAX\<close> elements, and otherwise appends the positions and the
  values of the entries that compare unequal to zero.
\<close>

lemma Compress_fill_closed:
  "length vector \<le> INT_MAX \<Longrightarrow>
   Compress_fill vector i idx vals =
     Inr (idx @ map of_nat (filter (\<lambda>k. float_ne_zero (vector ! k)) [i..<length vector]),
          vals @ map ((!) vector) (filter (\<lambda>k. float_ne_zero (vector ! k)) [i..<length vector]))"
proof (induction vector i idx vals rule: Compress_fill.induct)
  case (1 vector i idx vals)
  show ?case
  proof (cases "i < length vector")
    case True
    then have "i \<noteq> INT_MAX" using "1.prems" by simp
    with True "1.IH" "1.prems" show ?thesis
      by (subst Compress_fill.simps) (simp add: upt_conv_Cons)
  next
    case False
    then show ?thesis by (subst Compress_fill.simps) simp
  qed
qed

lemma Compress_fill_overflow:
  "INT_MAX < length vector \<Longrightarrow> i \<le> INT_MAX \<Longrightarrow>
   Compress_fill vector i idx vals = Inl SignedOverflow"
proof (induction vector i idx vals rule: Compress_fill.induct)
  case (1 vector i idx vals)
  show ?case
  proof (cases "i = INT_MAX")
    case True
    with "1.prems" show ?thesis by (subst Compress_fill.simps) simp
  next
    case False
    with "1.prems" "1.IH" show ?thesis by (subst Compress_fill.simps) simp
  qed
qed

lemma vector_positions_values: "map ((!) v) (vector_positions v) = filter float_ne_zero v"
  unfolding vector_positions_def by (rule filter_as_positions)

lemma length_vector_positions: "length (vector_positions v) = nonZeros v"
  using arg_cong [OF vector_positions_values, of length v] by (simp add: nonZeros_def)

lemma vector_positions_bound: "k \<in> set (vector_positions v) \<Longrightarrow> k < length v"
  by (simp add: vector_positions_def)

lemma vector_positions_iff:
  "k \<in> set (vector_positions v) \<longleftrightarrow> k < length v \<and> float_ne_zero (v ! k)"
  by (auto simp add: vector_positions_def)

lemma nonZeros_0_iff: "nonZeros v = 0 \<longleftrightarrow> (\<forall>x\<in>set v. \<not> float_ne_zero x)"
  by (simp add: nonZeros_def filter_empty_conv)

lemma nonZeros_le: "nonZeros v \<le> length v"
  by (simp add: nonZeros_def)


subsection \<open>The loops of ConvertToCSR\<close>

text \<open>
  The inner loop scans one row, the outer loop all rows; either overflows its counter
  when its bound exceeds \<open>INT_MAX\<close>. \<open>ConvertToCSR_closed\<close> gives the result of
  \<^verbatim>\<open>ConvertToCSR\<close> on every matrix, \<open>ConvertToCSR_linear\<close> the same result in terms of
  the linear offsets.
\<close>

lemma ConvertToCSR_cols_closed:
  "columns matrix \<le> INT_MAX \<Longrightarrow>
   ConvertToCSR_cols matrix i j idx vals =
     Inr (idx @ map (\<lambda>j. of_nat (i * columns matrix + j))
                  (filter (\<lambda>j. float_ne_zero (at matrix i j)) [j..<columns matrix]),
          vals @ map (at matrix i)
                  (filter (\<lambda>j. float_ne_zero (at matrix i j)) [j..<columns matrix]))"
proof (induction matrix i j idx vals rule: ConvertToCSR_cols.induct)
  case (1 matrix i j idx vals)
  show ?case
  proof (cases "j < columns matrix")
    case True
    then have "j \<noteq> INT_MAX" using "1.prems" by simp
    with True "1.IH" "1.prems" show ?thesis
      by (subst ConvertToCSR_cols.simps) (simp add: upt_conv_Cons)
  next
    case False
    then show ?thesis by (subst ConvertToCSR_cols.simps) simp
  qed
qed

lemma ConvertToCSR_cols_overflow:
  "INT_MAX < columns matrix \<Longrightarrow> j \<le> INT_MAX \<Longrightarrow>
   ConvertToCSR_cols matrix i j idx vals = Inl SignedOverflow"
proof (induction matrix i j idx vals rule: ConvertToCSR_cols.induct)
  case (1 matrix i j idx vals)
  show ?case
  proof (cases "j = INT_MAX")
    case True
    with "1.prems" show ?thesis by (subst ConvertToCSR_cols.simps) simp
  next
    case False
    with "1.prems" "1.IH" show ?thesis by (subst ConvertToCSR_cols.simps) simp
  qed
qed

lemma ConvertToCSR_rows_closed:
  "columns matrix \<le> INT_MAX \<Longrightarrow> rows matrix \<le> INT_MAX \<Longrightarrow>
   ConvertToCSR_rows matrix i idx vals =
     Inr (idx @ concat (map (\<lambda>i. map (\<lambda>j. of_nat (i * columns matrix + j))
                  (filter (\<lambda>j. float_ne_zero (at matrix i j)) [0..<columns matrix]))
                  [i..<rows matrix]),
          vals @ concat (map (\<lambda>i. map (at matrix i)
                  (filter (\<lambda>j. float_ne_zero (at matrix i j)) [0..<columns matrix]))
                  [i..<rows matrix]))"
proof (induction matrix i idx vals rule: ConvertToCSR_rows.induct)
  case (1 matrix i idx vals)
  show ?case
  proof (cases "i < rows matrix")
    case True
    then have ne: "i \<noteq> INT_MAX" using "1.prems" by simp
    note c = ConvertToCSR_cols_closed [OF "1.prems"(1), of i 0 idx vals]
    show ?thesis
      using True ne "1.prems" "1.IH" [OF True c [symmetric, THEN sym] refl ne]
      by (subst ConvertToCSR_rows.simps) (simp add: c upt_conv_Cons)
  next
    case False
    then show ?thesis by (subst ConvertToCSR_rows.simps) simp
  qed
qed

lemma ConvertToCSR_rows_overflow_cols:
  "INT_MAX < columns matrix \<Longrightarrow> i < rows matrix \<Longrightarrow>
   ConvertToCSR_rows matrix i idx vals = Inl SignedOverflow"
  by (subst ConvertToCSR_rows.simps) (simp add: ConvertToCSR_cols_overflow)

lemma ConvertToCSR_rows_overflow_rows:
  "columns matrix \<le> INT_MAX \<Longrightarrow> INT_MAX < rows matrix \<Longrightarrow> i \<le> INT_MAX \<Longrightarrow>
   ConvertToCSR_rows matrix i idx vals = Inl SignedOverflow"
proof (induction matrix i idx vals rule: ConvertToCSR_rows.induct)
  case (1 matrix i idx vals)
  note c = ConvertToCSR_cols_closed [OF "1.prems"(1), of i 0 idx vals]
  show ?case
  proof (cases "i = INT_MAX")
    case True
    with "1.prems" show ?thesis
      by (subst ConvertToCSR_rows.simps) (simp add: ConvertToCSR_cols_closed)
  next
    case False
    have lt: "i < rows matrix" using "1.prems" by simp
    show ?thesis
      using False lt "1.prems" "1.IH" [OF lt c [symmetric, THEN sym] refl False]
      by (subst ConvertToCSR_rows.simps) (simp add: c)
  qed
qed

lemma ConvertToCSR_closed:
  "ConvertToCSR matrix =
     (if rows matrix = 0 \<or> columns matrix = 0 then Inl invalid_argument
      else if INT_MAX < rows matrix \<or> INT_MAX < columns matrix then Inl SignedOverflow
      else Inr (map (\<lambda>(i, j). of_nat (i * columns matrix + j)) (nonzero_positions matrix),
                map (\<lambda>(i, j). at matrix i j) (nonzero_positions matrix)))"
proof -
  consider "rows matrix = 0 \<or> columns matrix = 0"
    | "rows matrix \<noteq> 0" "columns matrix \<noteq> 0" "INT_MAX < columns matrix"
    | "rows matrix \<noteq> 0" "columns matrix \<noteq> 0" "columns matrix \<le> INT_MAX" "INT_MAX < rows matrix"
    | "rows matrix \<noteq> 0" "columns matrix \<noteq> 0" "columns matrix \<le> INT_MAX" "rows matrix \<le> INT_MAX"
    by linarith
  then show ?thesis
  proof cases
    case 1
    then show ?thesis by (simp add: ConvertToCSR_def)
  next
    case 2
    then show ?thesis by (simp add: ConvertToCSR_def ConvertToCSR_rows_overflow_cols)
  next
    case 3
    then show ?thesis by (simp add: ConvertToCSR_def ConvertToCSR_rows_overflow_rows)
  next
    case 4
    then show ?thesis
      by (simp add: ConvertToCSR_def ConvertToCSR_rows_closed nonzero_positions_def
          map_concat comp_def)
  qed
qed

lemma nonzero_positions_bound:
  "(i, j) \<in> set (nonzero_positions m) \<Longrightarrow> i < rows m \<and> j < columns m"
  by (auto simp add: nonzero_positions_def)

lemma linear_positions:
  "map (\<lambda>(i, j). i * columns m + j) (nonzero_positions m) =
   filter (\<lambda>k. float_ne_zero (elements m ! k)) [0..<rows m * columns m]"
proof -
  let ?C = "columns m" and ?P = "\<lambda>k. float_ne_zero (elements m ! k)"
  have "map (\<lambda>(i, j). i * ?C + j) (nonzero_positions m) =
        concat (map (\<lambda>i. filter ?P (map (\<lambda>j. i * ?C + j) [0..<?C])) [0..<rows m])"
    by (simp add: nonzero_positions_def map_concat comp_def filter_map at_def)
  also have "\<dots> = filter ?P (concat (map (\<lambda>i. map (\<lambda>j. i * ?C + j) [0..<?C]) [0..<rows m]))"
    by (simp add: filter_concat comp_def)
  finally show ?thesis by (simp add: upt_rowmajor)
qed

lemma values_positions:
  "map (\<lambda>(i, j). at m i j) (nonzero_positions m) =
   map ((!) (elements m)) (map (\<lambda>(i, j). i * columns m + j) (nonzero_positions m))"
  by (simp add: at_def case_prod_unfold)

lemma values_filter:
  "wf_matrix m \<Longrightarrow>
   map (\<lambda>(i, j). at m i j) (nonzero_positions m) = filter float_ne_zero (elements m)"
  using filter_as_positions [where P = float_ne_zero and xs = "elements m"]
  by (simp only: values_positions linear_positions wf_matrix_def)

lemma length_nonzero_positions:
  "wf_matrix m \<Longrightarrow> length (nonzero_positions m) = nonZeros (elements m)"
  using arg_cong [OF values_filter, of m length] by (simp add: nonZeros_def)

lemma ConvertToCSR_linear:
  assumes "rows m \<noteq> 0" "columns m \<noteq> 0" "rows m \<le> INT_MAX" "columns m \<le> INT_MAX"
  shows "ConvertToCSR m =
     Inr (map of_nat (filter (\<lambda>k. float_ne_zero (elements m ! k)) [0..<rows m * columns m]),
          map ((!) (elements m))
            (filter (\<lambda>k. float_ne_zero (elements m ! k)) [0..<rows m * columns m]))"
proof -
  have "map (\<lambda>(i, j). of_nat (i * columns m + j) :: uint32_t) (nonzero_positions m) =
        map of_nat (map (\<lambda>(i, j). i * columns m + j) (nonzero_positions m))"
    by (simp add: case_prod_unfold)
  then show ?thesis
    using assms by (simp add: ConvertToCSR_closed values_positions linear_positions)
qed


subsection \<open>The scatter loops\<close>

text \<open>
  When every index is inside the target, a scatter loop ends with a result: the fold
  of its writes over the pairs of index and value.
\<close>

lemma Decompress_scatter_closed:
  "length idx = n \<Longrightarrow> length vals = n \<Longrightarrow> \<forall>x\<in>set idx. unat x < length vector \<Longrightarrow>
   Decompress_scatter idx vals n i vector =
     Inr (fold (\<lambda>(x, v) vec. vec[unat x := v]) (drop i (zip idx vals)) vector)"
proof (induction idx vals n i vector rule: Decompress_scatter.induct)
  case (1 idx vals n i vector)
  show ?case
  proof (cases "i < n")
    case True
    with "1.prems" have inb: "unat (idx ! i) < length vector" by simp
    have d: "drop i (zip idx vals) = (idx ! i, vals ! i) # drop (Suc i) (zip idx vals)"
      using True "1.prems" by (simp add: Cons_nth_drop_Suc [symmetric])
    show ?thesis
      using True inb "1.prems" "1.IH" [OF True]
      by (subst Decompress_scatter.simps) (simp add: d)
  next
    case False
    with "1.prems" show ?thesis by (subst Decompress_scatter.simps) simp
  qed
qed

lemma fold_positions:
  "fold (\<lambda>k vec. vec[k := v ! k]) (vector_positions v) (replicate (length v) 0) =
   map normalize_zero v"
  by (rule nth_equalityI)
    (simp_all add: fold_update_nth vector_positions_iff normalize_zero_def)


lemma ConvertFromCSR_fill_closed:
  "cols = columns matrix \<Longrightarrow> cols \<noteq> 0 \<Longrightarrow> length vals = length idx \<Longrightarrow>
   \<forall>x\<in>set idx. unat x < rows matrix * columns matrix \<Longrightarrow>
   ConvertFromCSR_fill idx vals cols i matrix =
     Inr (matrix\<lparr>elements :=
            fold (\<lambda>(x, w) es. es[(unat x div cols) * cols + unat x mod cols := w])
              (drop i (zip idx vals)) (elements matrix)\<rparr>)"
proof (induction idx vals cols i matrix rule: ConvertFromCSR_fill.induct)
  case (1 idx vals cols i matrix)
  show ?case
  proof (cases "i < length idx")
    case True
    with "1.prems" have "unat (idx ! i) < rows matrix * cols" by simp
    then have row: "unat (idx ! i) div cols < rows matrix"
      using "1.prems"(2) by (simp add: less_mult_imp_div_less)
    have col: "unat (idx ! i) mod cols < columns matrix"
      using "1.prems"(1,2) by simp
    have d: "drop i (zip idx vals) = (idx ! i, vals ! i) # drop (Suc i) (zip idx vals)"
      using True "1.prems"(3) by (simp add: Cons_nth_drop_Suc [symmetric])
    let ?m = "matrix\<lparr>elements := (elements matrix)
        [unat (idx ! i) div cols * columns matrix + unat (idx ! i) mod cols := vals ! i]\<rparr>"
    have "ConvertFromCSR_fill idx vals cols (i + 1) ?m =
        Inr (?m\<lparr>elements :=
            fold (\<lambda>(x, w) es. es[(unat x div cols) * cols + unat x mod cols := w])
              (drop (i + 1) (zip idx vals)) (elements ?m)\<rparr>)"
      using True row col "1.prems" by (intro "1.IH") simp_all
    then show ?thesis
      using True row col "1.prems"
      by (subst ConvertFromCSR_fill.simps) (simp add: d Let_def)
  next
    case False
    with "1.prems" show ?thesis by (subst ConvertFromCSR_fill.simps) simp
  qed
qed

lemma ConvertFromCSR_closed:
  assumes "cols_number b \<noteq> 0" and "length vals = length idx"
    and "\<forall>x\<in>set idx. unat x < rows_number b * cols_number b"
  shows "ConvertFromCSR idx vals b = Inr (scatter_dense (rows_number b) (cols_number b) idx vals)"
  using assms
  by (simp add: ConvertFromCSR_def scatter_dense_def ConvertFromCSR_fill_closed)


lemma scatter_dense_positions:
  assumes "C \<noteq> 0" and "length es = R * C" and "R * C \<le> 2 ^ 32"
  shows "scatter_dense R C (map of_nat (vector_positions es)) (map ((!) es) (vector_positions es)) =
         \<lparr>rows = R, columns = C, elements = map normalize_zero es\<rparr>"
proof -
  let ?ks = "vector_positions es"
  have exact: "unat (of_nat k :: uint32_t) = k" if "k \<in> set ?ks" for k
    using vector_positions_bound [OF that] assms by (intro unat_of_nat32) simp
  have "fold (\<lambda>(x, w) es'. es'[(unat x div C) * C + unat x mod C := w])
          (zip (map of_nat ?ks :: uint32_t list) (map ((!) es) ?ks)) (replicate (R * C) 0) =
        fold (\<lambda>k es'. es'[unat (of_nat k :: uint32_t) := es ! k]) ?ks (replicate (R * C) 0)"
    by (simp add: zip_map_map zip_same_conv_map fold_map comp_def)
  also have "\<dots> = fold (\<lambda>k es'. es'[k := es ! k]) ?ks (replicate (R * C) 0)"
    by (rule fold_cong) (simp_all add: exact)
  also have "\<dots> = map normalize_zero es"
    using fold_positions [of es] by (simp add: assms(2))
  finally show ?thesis by (simp add: scatter_dense_def)
qed

subsection \<open>The adapters\<close>

text \<open>Lengths and outcomes of the four adapters, for arbitrary codecs.\<close>

lemma CompressIndexes_length:
  "length (fst (CompressIndexes c idx compressed)) =
     index_reported c idx compressed + STREAMVBYTE_PADDING c"
  by (simp add: CompressIndexes_def index_reported_def Let_def split: prod.splits)

lemma CompressIndexes_size:
  "snd (CompressIndexes c idx compressed) =
     index_reported c idx compressed + STREAMVBYTE_PADDING c"
  by (simp add: CompressIndexes_def index_reported_def Let_def split: prod.splits)

lemma CompressValues_cases:
  "CompressValues c vals compressed p =
     (if header_reported c vals compressed p = 0 \<or> payload_reported c vals compressed p = 0
      then Inl runtime_error
      else Inr (resize (header_reported c vals compressed p + payload_reported c vals compressed p)
                  (memory (fst (fpzip_write c
                     (fst (fpzip_write_header c (CompressValues_stream c vals compressed p))) vals))),
                header_reported c vals compressed p + payload_reported c vals compressed p))"
  by (simp add: CompressValues_def header_reported_def payload_reported_def Let_def
      split: prod.splits)

lemma CompressValues_Inr:
  "CompressValues c vals compressed p = Inr (bytes, sz) \<Longrightarrow>
   length bytes = header_reported c vals compressed p + payload_reported c vals compressed p \<and>
   sz = length bytes"
  by (auto simp add: CompressValues_cases split: if_splits)

lemma CompressValues_Inl:
  "CompressValues c vals compressed p = Inl e \<Longrightarrow> e = runtime_error"
  by (auto simp add: CompressValues_cases split: if_splits)

lemma DecompressValues_length:
  "DecompressValues c compressed buf = Inr vals \<Longrightarrow> length vals = length buf"
  by (auto simp add: DecompressValues_def Let_def split: prod.splits if_splits)

lemma DecompressValues_Inl:
  "DecompressValues c compressed buf = Inl e \<Longrightarrow> e = runtime_error"
  by (auto simp add: DecompressValues_def Let_def split: prod.splits if_splits)

lemma length_DecompressIndexes [simp]:
  "length (DecompressIndexes c compressed buf) = length buf"
  by (simp add: DecompressIndexes_def)


subsection \<open>Compress in closed form\<close>

text \<open>The two \<^verbatim>\<open>Compress\<close> functions, with the loops replaced by their results.\<close>

lemma Compress_vector_closed:
  "Compress_vector c v p =
     (if v = [] \<or> nonZeros v = 0 then Inr default_ArchivedVector
      else if INT_MAX < length v then Inl SignedOverflow
      else
        (case CompressValues c (filter float_ne_zero v) [] p of
           Inl e \<Rightarrow> Inl e
         | Inr (compressed_values, sz) \<Rightarrow>
             Inr \<lparr>is_valid = True, nonzero = nonZeros v, size_v = length v,
                  indexes = fst (CompressIndexes c (map of_nat (vector_positions v)) []),
                  values_v = compressed_values\<rparr>))"
proof -
  consider "v = [] \<or> nonZeros v = 0" | "v \<noteq> []" "nonZeros v \<noteq> 0" "INT_MAX < length v"
    | "v \<noteq> []" "nonZeros v \<noteq> 0" "length v \<le> INT_MAX"
    by linarith
  then show ?thesis
  proof cases
    case 1
    then show ?thesis by (auto simp add: Compress_vector_def)
  next
    case 2
    then show ?thesis by (simp add: Compress_vector_def Compress_fill_overflow)
  next
    case 3
    then show ?thesis
      by (auto simp add: Compress_vector_def Compress_fill_closed Let_def
          vector_positions_values [unfolded vector_positions_def]
          length_vector_positions [unfolded vector_positions_def]
          vector_positions_def
          split: prod.splits sum.splits)
  qed
qed

lemma Compress_matrix_closed:
  "Compress_matrix c m p =
     (if rows m = 0 \<or> columns m = 0 then Inl invalid_argument
      else if INT_MAX < rows m \<or> INT_MAX < columns m then Inl SignedOverflow
      else
        (case CompressValues c (map (\<lambda>(i, j). at m i j) (nonzero_positions m)) [] p of
           Inl e \<Rightarrow> Inl e
         | Inr (compressed_values, sz) \<Rightarrow>
             Inr \<lparr>is_valid_m = True, nonzero_m = length (nonzero_positions m),
                  rows_number = rows m, cols_number = columns m,
                  indexes_m = fst (CompressIndexes c
                    (map (\<lambda>(i, j). of_nat (i * columns m + j)) (nonzero_positions m)) []),
                  values_m = compressed_values\<rparr>))"
  by (auto simp add: Compress_matrix_def ConvertToCSR_closed Let_def split: prod.splits sum.splits)


subsection \<open>The adapters under the contracts of the codecs\<close>

text \<open>
  The contracts of the codecs carry over to the adapters: \<^verbatim>\<open>CompressIndexes\<close> sizes the
  buffer by the codec's bound and trims it to the reported length plus the padding,
  which keeps the reported bytes; \<^verbatim>\<open>CompressValues\<close> sizes the buffer \<open>4 * N + 1024\<close>,
  sets \<open>nx = N\<close> and trims to \<open>hs + ds\<close>. A faithful index codec returns stored indices
  or zeros, and \<^verbatim>\<open>Decompress\<close> ends with a result or with the error of the value codec
  when the decoded indices are inside the target.
\<close>

lemma streamvbyte_contract_faithful:
  assumes "streamvbyte_contract c"
  shows "index_codec_faithful c"
  unfolding index_codec_faithful_def
proof
  fix idx :: "uint32_t list"
  let ?count = "of_nat (length idx) :: uint32_t"
  let ?buf = "resize (streamvbyte_max_compressedbytes c ?count) ([] :: uint8_t list)"
  obtain out' written where
    e: "streamvbyte_delta_encode c idx ?count ?buf 0 = (out', written)"
    by (cases "streamvbyte_delta_encode c idx ?count ?buf 0")
  have k: "unat ?count \<le> length idx" by (rule unat_of_nat32_le)
  have "unat ?count \<le> length idx \<and> streamvbyte_max_compressedbytes c ?count \<le> length ?buf"
    using k by (simp del: resize_Nil)
  from assms [unfolded streamvbyte_contract_def, rule_format,
      where inp = idx and count = ?count and out = ?buf and prev = 0, OF this] e
  have fits: "written + STREAMVBYTE_PADDING c \<le> length out'"
    and dec: "\<And>rest. streamvbyte_delta_decode c (take written out' @ rest) ?count 0 =
                take (unat ?count) idx"
    by simp_all
  have "resize (written + STREAMVBYTE_PADDING c) out' =
        take written out' @ take (STREAMVBYTE_PADDING c) (drop written out')"
    using fits by (simp add: resize_def take_add)
  then have "fst (CompressIndexes c idx []) =
        take written out' @ take (STREAMVBYTE_PADDING c) (drop written out')"
    using e by (simp add: CompressIndexes_def Let_def del: resize_Nil)
  then show "DecompressIndexes c (fst (CompressIndexes c idx [])) (resize (length idx) []) =
        take (unat ?count) idx @ replicate (length idx - unat ?count) 0"
    using k by (simp add: DecompressIndexes_def dec store_def)
qed

lemma streamvbyte_contract_round_trip:
  assumes "streamvbyte_contract c" and "length idx < 2 ^ 32"
  shows "DecompressIndexes c (fst (CompressIndexes c idx [])) (resize (length idx) []) = idx"
proof -
  have "unat (of_nat (length idx) :: uint32_t) = length idx"
    using assms(2) by (rule unat_of_nat32)
  with streamvbyte_contract_faithful [OF assms(1)] show ?thesis
    unfolding index_codec_faithful_def by simp
qed

lemma fpzip_lossless_adapters:
  assumes "fpzip_lossless c" and "0 < length vals" and "length vals \<le> INT_MAX"
  shows "\<exists>compressed sz.
           CompressValues c vals [] 0 = Inr (compressed, sz) \<and>
           DecompressValues c compressed (resize (length vals) []) = Inr vals"
proof -
  let ?buf = "resize (4 * length vals + 1024) ([] :: uint8_t list)"
  let ?fpz = "(fpzip_write_to_buffer c ?buf (length ?buf))
               \<lparr>fpz_type := FPZIP_TYPE_FLOAT, prec := 0, nx := int (length vals),
                ny := 1, nz := 1, nf := 1\<rparr>"
  have s: "CompressValues_stream c vals [] 0 = ?fpz"
    using assms(3) by (simp add: CompressValues_stream_def Let_def int_of_size_t_small)
  obtain fpz1 hs where h: "fpzip_write_header c ?fpz = (fpz1, hs)"
    by (cases "fpzip_write_header c ?fpz")
  obtain fpz2 ds where w: "fpzip_write c fpz1 vals = (fpz2, ds)"
    by (cases "fpzip_write c fpz1 vals")
  let ?bytes = "take (hs + ds) (memory fpz2)"
  obtain fpz3 rh where rhd: "fpzip_read_header c (fpzip_read_from_buffer c ?bytes) = (fpz3, rh)"
    by (cases "fpzip_read_header c (fpzip_read_from_buffer c ?bytes)")
  obtain decoded rd where r: "fpzip_read c fpz3 = (decoded, rd)"
    by (cases "fpzip_read c fpz3")
  have "0 < length vals \<and> length vals \<le> INT_MAX \<and> 4 * length vals + 1024 \<le> length ?buf"
    using assms(2,3) by (simp del: resize_Nil)
  from assms(1) [unfolded fpzip_lossless_def, rule_format, where vals = vals and buffer = ?buf,
      OF this] h w rhd r
  have ok: "hs \<noteq> 0" "ds \<noteq> 0" "hs + ds \<le> length (memory fpz2)" "rh \<noteq> 0" "rd \<noteq> 0"
    "decoded = vals"
    by simp_all
  have trim: "resize (hs + ds) (memory fpz2) = ?bytes"
    using ok(3) by (simp add: resize_def)
  have c: "CompressValues c vals [] 0 = Inr (?bytes, hs + ds)"
    using h w ok(1,2) trim by (simp add: CompressValues_def s Let_def del: resize_Nil)
  have d: "DecompressValues c ?bytes (resize (length vals) []) = Inr vals"
    using rhd r ok(4,5,6) by (simp add: DecompressValues_def Let_def store_def)
  from c d show ?thesis by blast
qed

lemma faithful_decoded_set:
  assumes "index_codec_faithful c"
  shows "set (DecompressIndexes c (fst (CompressIndexes c idx [])) (replicate (length idx) 0))
           \<subseteq> set idx \<union> {0}"
proof -
  let ?k = "unat (of_nat (length idx) :: uint32_t)"
  from assms have "DecompressIndexes c (fst (CompressIndexes c idx [])) (resize (length idx) []) =
      take ?k idx @ replicate (length idx - ?k) 0"
    unfolding index_codec_faithful_def by blast
  moreover have "set (take ?k idx) \<subseteq> set idx" by (rule set_take_subset)
  ultimately show ?thesis by (auto simp add: set_replicate_conv_if)
qed

lemma Decompress_vector_safe:
  assumes "\<forall>x\<in>set (DecompressIndexes c (indexes a) (replicate (nonzero a) 0)). unat x < size_v a"
  shows "Decompress_vector c a = Inl runtime_error \<or> (\<exists>r. Decompress_vector c a = Inr r)"
proof (cases "is_valid a")
  case False
  then show ?thesis by (simp add: Decompress_vector_def)
next
  case True
  show ?thesis
  proof (cases "DecompressValues c (values_v a) (replicate (nonzero a) 0)")
    case (Inl e)
    with True show ?thesis
      by (simp add: Decompress_vector_def DecompressValues_Inl [OF Inl])
  next
    case (Inr vals)
    then have l: "length vals = nonzero a"
      using DecompressValues_length [OF Inr] by simp
    let ?idx = "DecompressIndexes c (indexes a) (replicate (nonzero a) 0)"
    have "Decompress_scatter ?idx vals (nonzero a) 0 (replicate (size_v a) 0) =
        Inr (fold (\<lambda>(x, v) vec. vec[unat x := v]) (drop 0 (zip ?idx vals))
               (replicate (size_v a) 0))"
      using assms l by (intro Decompress_scatter_closed) simp_all
    with True Inr show ?thesis by (simp add: Decompress_vector_def)
  qed
qed

lemma Decompress_matrix_safe:
  assumes "is_valid_m b" and "cols_number b \<noteq> 0"
    and "\<forall>x\<in>set (DecompressIndexes c (indexes_m b) (replicate (nonzero_m b) 0)).
           unat x < rows_number b * cols_number b"
  shows "Decompress_matrix c b = Inl runtime_error \<or> (\<exists>r. Decompress_matrix c b = Inr r)"
proof (cases "DecompressValues c (values_m b) (replicate (nonzero_m b) 0)")
  case (Inl e)
  with assms(1) show ?thesis
    by (simp add: Decompress_matrix_def DecompressValues_Inl [OF Inl])
next
  case (Inr vals)
  let ?idx = "DecompressIndexes c (indexes_m b) (replicate (nonzero_m b) 0)"
  have l: "length vals = length ?idx"
    using DecompressValues_length [OF Inr] by simp
  have "ConvertFromCSR ?idx vals b =
      Inr (scatter_dense (rows_number b) (cols_number b) ?idx vals)"
    using assms(2) l assms(3) by (rule ConvertFromCSR_closed)
  with assms(1) Inr show ?thesis by (simp add: Decompress_matrix_def)
qed


subsection \<open>The reference codec\<close>

text \<open>
  The reference codec meets both contracts, and its adapters have closed forms that
  evaluate the compressor on concrete inputs.
\<close>

lemma word_of_bytes_of_word [simp]: "word_of_bytes (bytes_of_word w) = w"
  unfolding word_of_bytes_def bytes_of_word_def
  apply simp
  apply (rule bit_word_eqI)
  subgoal for n
    by (cases "n < 8"; cases "n < 16"; cases "n < 24") (auto simp add: bit_simps)
  done

lemma length_bytes_of_word [simp]: "length (bytes_of_word w) = 4"
  by (simp add: bytes_of_word_def)

lemma length_raw_encode [simp]: "length (raw_encode xs) = 4 * length xs"
  by (induction xs) (simp_all add: raw_encode_def)

lemma raw_encode_Cons: "raw_encode (x # xs) = bytes_of_word x @ raw_encode xs"
  by (simp add: raw_encode_def)

lemma raw_decode_encode: "raw_decode (raw_encode xs @ rest) (length xs) = xs"
  by (induction xs) (simp_all add: raw_encode_Cons)

lemma raw_CompressIndexes:
  "CompressIndexes raw_codecs idx [] =
     (raw_encode (take (unat (of_nat (length idx) :: uint32_t)) idx) @ replicate 16 0,
      4 * unat (of_nat (length idx) :: uint32_t) + 16)"
proof -
  let ?k = "unat (of_nat (length idx) :: uint32_t)"
  have k: "?k \<le> length idx"
    by (simp add: unat_of_nat)
  have m: "min ?k (length idx) = ?k" using k by simp
  have "store (raw_encode (take ?k idx)) (replicate ((?k + 3) div 4 + 4 * ?k + 16) (0::uint8_t))
        = raw_encode (take ?k idx) @ replicate ((?k + 3) div 4 + 16) 0"
    using k by (simp add: store_fits m)
  then show ?thesis
    using k by (simp add: CompressIndexes_def raw_codecs_def Let_def m resize_def)
qed

lemma raw_index_codec_faithful: "index_codec_faithful raw_codecs"
  unfolding index_codec_faithful_def
proof
  fix idx :: "uint32_t list"
  let ?k = "unat (of_nat (length idx) :: uint32_t)"
  have k: "?k \<le> length idx"
    by (simp add: unat_of_nat)
  have d: "raw_decode (raw_encode (take ?k idx) @ replicate 16 0) ?k = take ?k idx"
    using raw_decode_encode [of "take ?k idx" "replicate 16 0"] k by simp
  show "DecompressIndexes raw_codecs (fst (CompressIndexes raw_codecs idx []))
          (resize (length idx) []) = take ?k idx @ replicate (length idx - ?k) 0"
    using k by (simp add: raw_CompressIndexes DecompressIndexes_def d store_def)
      (simp add: raw_codecs_def d)
qed

lemma raw_CompressValues:
  assumes "length vals \<le> INT_MAX"
  shows "CompressValues raw_codecs vals [] p =
     Inr (bytes_of_word (of_nat (length vals)) @ raw_encode vals @ [1], 4 * length vals + 5)"
proof -
  let ?N = "length vals"
  let ?buf = "replicate (4 * ?N + 1024) (0::uint8_t)"
  let ?hdr = "bytes_of_word (of_nat ?N)"
  have h: "store_at 0 ?hdr ?buf = ?hdr @ replicate (4 * ?N + 1020) 0"
    by (simp add: store_at_fits)
  have w: "store_at 4 (raw_encode vals @ [1]) (?hdr @ replicate (4 * ?N + 1020) 0) =
           ?hdr @ raw_encode vals @ [1] @ replicate 1019 0"
    by (simp add: store_at_fits)
  show ?thesis
    using assms
    by (simp add: CompressValues_def CompressValues_stream_def raw_codecs_def Let_def
        int_of_size_t_small h w resize_def)
qed

lemma raw_DecompressValues:
  assumes "length vals \<le> INT_MAX"
  shows "DecompressValues raw_codecs (bytes_of_word (of_nat (length vals)) @ raw_encode vals @ [1])
           (replicate (length vals) 0) = Inr vals"
proof -
  have "length vals < 2 ^ 32" using assms by (simp add: INT_MAX_def)
  then have n: "uint (of_nat (length vals) :: 32 word) = int (length vals)"
    by (simp add: uint_nat unat_of_nat)
  show ?thesis
    using raw_decode_encode [of vals "[1]"]
    by (simp add: DecompressValues_def raw_codecs_def Let_def n store_def)
qed

lemma raw_streamvbyte_contract: "streamvbyte_contract raw_codecs"
  unfolding streamvbyte_contract_def
proof (intro allI impI)
  fix inp :: "uint32_t list" and count :: uint32_t and out :: "uint8_t list" and prev :: uint32_t
  assume a: "unat count \<le> length inp \<and>
             streamvbyte_max_compressedbytes raw_codecs count \<le> length out"
  let ?k = "unat count"
  have m: "min ?k (length inp) = ?k" "min (length inp) ?k = ?k" using a by simp_all
  have big: "4 * ?k + 16 \<le> length out" using a by (simp add: raw_codecs_def)
  have st: "store (raw_encode (take ?k inp)) out = raw_encode (take ?k inp) @ drop (4 * ?k) out"
    using big by (simp add: store_fits m)
  have tk: "take (4 * ?k) (raw_encode (take ?k inp) @ drop (4 * ?k) out) = raw_encode (take ?k inp)"
    by (simp add: m)
  have dec: "raw_decode (raw_encode (take ?k inp) @ rest) ?k = take ?k inp" for rest
    using raw_decode_encode [of "take ?k inp" rest] by (simp add: m)
  show "case streamvbyte_delta_encode raw_codecs inp count out prev of
          (out', written) \<Rightarrow>
            length out' = length out \<and>
            written + STREAMVBYTE_PADDING raw_codecs \<le> length out' \<and>
            (\<forall>rest. streamvbyte_delta_decode raw_codecs (take written out' @ rest) count prev =
                    take (unat count) inp)"
    using big by (simp add: raw_codecs_def m st tk dec)
qed

lemma raw_fpzip_lossless: "fpzip_lossless raw_codecs"
  unfolding fpzip_lossless_def
proof (intro allI impI)
  fix vals :: "float list" and buffer :: "uint8_t list"
  assume a: "0 < length vals \<and> length vals \<le> INT_MAX \<and> 4 * length vals + 1024 \<le> length buffer"
  let ?N = "length vals"
  let ?hdr = "bytes_of_word (of_nat ?N)"
  let ?mem1 = "?hdr @ drop 4 buffer"
  let ?mem2 = "?hdr @ raw_encode vals @ [1] @ drop (4 * ?N + 5) buffer"
  have h: "store_at 0 ?hdr buffer = ?mem1"
    using a by (simp add: store_at_fits)
  have w: "store_at 4 (raw_encode vals @ [1]) ?mem1 = ?mem2"
    using a by (simp add: store_at_fits add.commute)
  have t: "take (4 + (4 * ?N + 1)) ?mem2 = ?hdr @ raw_encode vals @ [1]"
    by simp
  have "?N < 2 ^ 32" using a by (simp add: INT_MAX_def)
  then have n: "uint (of_nat ?N :: 32 word) = int ?N"
    by (simp add: uint_nat unat_of_nat)
  have d: "raw_decode (raw_encode vals @ [1]) ?N = vals"
    by (rule raw_decode_encode)
  show "case fpzip_write_header raw_codecs
                ((fpzip_write_to_buffer raw_codecs buffer (length buffer))
                   \<lparr>fpz_type := FPZIP_TYPE_FLOAT, prec := 0, nx := int (length vals),
                    ny := 1, nz := 1, nf := 1\<rparr>) of
           (fpz1, hs) \<Rightarrow>
             (case fpzip_write raw_codecs fpz1 vals of
                (fpz2, ds) \<Rightarrow>
                  hs \<noteq> 0 \<and> ds \<noteq> 0 \<and> hs + ds \<le> length (memory fpz2) \<and>
                  (case fpzip_read_header raw_codecs
                          (fpzip_read_from_buffer raw_codecs (take (hs + ds) (memory fpz2))) of
                     (fpz3, rh) \<Rightarrow>
                       rh \<noteq> 0 \<and>
                       (case fpzip_read raw_codecs fpz3 of
                          (decoded, rd) \<Rightarrow> rd \<noteq> 0 \<and> decoded = vals)))"
    using a by (auto simp add: raw_codecs_def h w t n d)
qed

lemma silent_CompressValues:
  "CompressValues silent_index_codecs vals compressed p = CompressValues raw_codecs vals compressed p"
  by (simp add: CompressValues_cases header_reported_def payload_reported_def
      CompressValues_stream_def silent_index_codecs_def)


subsection \<open>The example inputs\<close>

text \<open>The loops are unfolded on concrete inputs with \<open>loop_simps\<close>.\<close>

lemmas loop_simps = ConvertToCSR_cols.simps ConvertToCSR_rows.simps ConvertFromCSR_fill.simps
  Compress_fill.simps Decompress_scatter.simps

lemma matrix_4x4_csr:
  "ConvertToCSR matrix_4x4 =
     Inr ([0, 3, 6, 9, 15], [0x3F800000, 0x40000000, 0x40400000, 0x40800000, 0x40A00000])"
  by (simp add: ConvertToCSR_def matrix_4x4_def loop_simps at_def float_ne_zero_def INT_MAX_def)

lemma matrix_4x4_scatter:
  "scatter_dense 4 4 [0, 3, 6, 9, 15]
     [0x3F800000, 0x40000000, 0x40400000, 0x40800000, 0x40A00000] = matrix_4x4"
  apply (simp add: scatter_dense_def matrix_4x4_def)
  apply (simp add: numeral_eq_Suc)
  done

lemma big_matrix_positions:
  "filter (\<lambda>k. float_ne_zero (elements big_matrix ! k)) [0..<6442450941] = [5, 4294967296]"
proof -
  have "filter (\<lambda>k. float_ne_zero (elements big_matrix ! k)) [0..<6442450941] =
        filter (\<lambda>k. k = 5 \<or> k = 4294967296) [0..<6442450941]"
    by (rule filter_cong [OF refl])
      (auto simp add: big_matrix_def nth_list_update float_ne_zero_def)
  then show ?thesis by (simp add: filter_upt_two)
qed

section \<open>The claims\<close>

subsection \<open>The round trip of a vector\<close>




subsection \<open>Invalid archives\<close>

text \<open>
  Claim C2. For every archive whose \<open>is_valid\<close> flag is false, decompressing it as a
  vector archive succeeds with the empty vector, and decompressing it as a matrix
  archive fails with \<^verbatim>\<open>std::invalid_argument\<close> (InvalidArgument); the codecs are not
  consulted in either case.
\<close>

theorem C2_invalid_archive_asymmetry:
  "(\<not> is_valid a \<longrightarrow> Decompress_vector c a = Inr []) \<and>
   (\<not> is_valid_m b \<longrightarrow> Decompress_matrix c b = Inl invalid_argument)"
  by (simp add: Decompress_vector_def Decompress_matrix_def)

theorem C2_invalid_archive_asymmetry_witness:
  "\<not> is_valid default_ArchivedVector \<and>
   Decompress_vector raw_codecs default_ArchivedVector = Inr [] \<and>
   \<not> is_valid_m \<lparr>is_valid_m = False, nonzero_m = 3, rows_number = 2, cols_number = 2,
                 indexes_m = [1, 2], values_m = [3]\<rparr> \<and>
   Decompress_matrix raw_codecs
     \<lparr>is_valid_m = False, nonzero_m = 3, rows_number = 2, cols_number = 2,
      indexes_m = [1, 2], values_m = [3]\<rparr> = Inl invalid_argument"
  using C2_invalid_archive_asymmetry [of default_ArchivedVector raw_codecs
      "\<lparr>is_valid_m = False, nonzero_m = 3, rows_number = 2, cols_number = 2,
        indexes_m = [1, 2], values_m = [3]\<rparr>"]
  by (simp add: default_ArchivedVector_def)

subsection \<open>The sentinel archive of a vector\<close>

text \<open>
  Claim C3. For every dense vector that is zero-length or has no entry that compares
  unequal to zero, \<^verbatim>\<open>Compress\<close> returns, without error, the sentinel archive with
  \<open>is_valid = false\<close>, both counts zero and both byte vectors empty; \<^verbatim>\<open>Decompress\<close> of
  that sentinel returns the zero-length vector, without error.
\<close>

theorem C3_empty_vector_sentinel:
  assumes "v = [] \<or> (\<forall>x\<in>set v. \<not> float_ne_zero x)"
  shows "Compress_vector c v p =
           Inr \<lparr>is_valid = False, nonzero = 0, size_v = 0, indexes = [], values_v = []\<rparr> \<and>
         Decompress_vector c
           \<lparr>is_valid = False, nonzero = 0, size_v = 0, indexes = [], values_v = []\<rparr> = Inr []"
proof -
  from assms have "length v = 0 \<or> nonZeros v = 0"
    by (auto simp add: nonZeros_0_iff)
  then show ?thesis
    by (auto simp add: Compress_vector_def Decompress_vector_def default_ArchivedVector_def)
qed

theorem C3_empty_vector_sentinel_witness:
  "\<not> float_ne_zero 0 \<and> \<not> float_ne_zero 0x80000000 \<and>
   Compress_vector raw_codecs [0, 0x80000000] 0 =
     Inr \<lparr>is_valid = False, nonzero = 0, size_v = 0, indexes = [], values_v = []\<rparr> \<and>
   Decompress_vector raw_codecs
     \<lparr>is_valid = False, nonzero = 0, size_v = 0, indexes = [], values_v = []\<rparr> = Inr []"
proof -
  have h: "\<not> float_ne_zero 0 \<and> \<not> float_ne_zero 0x80000000"
    by (simp add: float_ne_zero_def)
  then have "[0, 0x80000000 :: float] = [] \<or>
      (\<forall>x\<in>set [0, 0x80000000 :: float]. \<not> float_ne_zero x)"
    by simp
  from C3_empty_vector_sentinel [OF this, of raw_codecs 0] h show ?thesis by blast
qed

subsection \<open>Matrices with a zero dimension\<close>

text \<open>
  Claim C4, as stated: every matrix with both dimensions nonzero is compressed to an
  archive with \<open>is_valid = true\<close>. It fails when the value codec fails: \<^verbatim>\<open>CompressValues\<close>
  then throws \<^verbatim>\<open>std::runtime_error\<close> out of \<^verbatim>\<open>Compress\<close> and no archive is produced.
  With a value codec whose header write reports zero bytes, the 1 by 1 matrix \<open>[[1.0]]\<close>
  ends in that error.
\<close>

theorem C4_zero_dimension_rejection_counterexample:
  "rows \<lparr>rows = 1, columns = 1, elements = [0x3F800000]\<rparr> \<noteq> 0 \<and>
   columns \<lparr>rows = 1, columns = 1, elements = [0x3F800000]\<rparr> \<noteq> 0 \<and>
   header_reported failing_value_codecs [0x3F800000] [] 0 = 0 \<and>
   Compress_matrix failing_value_codecs \<lparr>rows = 1, columns = 1, elements = [0x3F800000]\<rparr> 0 =
     Inl runtime_error"
proof -
  have h: "header_reported failing_value_codecs [0x3F800000] [] 0 = 0"
    by (simp add: header_reported_def failing_value_codecs_def)
  then have "CompressValues failing_value_codecs [0x3F800000] [] 0 = Inl runtime_error"
    by (simp add: CompressValues_cases)
  then have "Compress_matrix failing_value_codecs
      \<lparr>rows = 1, columns = 1, elements = [0x3F800000]\<rparr> 0 = Inl runtime_error"
    by (simp add: Compress_matrix_def ConvertToCSR_def loop_simps at_def float_ne_zero_def
        INT_MAX_def split: prod.splits)
  with h show ?thesis by simp
qed

text \<open>
  Claim C4, amended: for every dense matrix with 0 rows or 0 columns, \<^verbatim>\<open>Compress\<close> fails
  with \<^verbatim>\<open>std::invalid_argument\<close> (InvalidArgument). For every matrix with both
  dimensions nonzero, \<^verbatim>\<open>Compress\<close> does not raise that error and every archive it
  produces has \<open>is_valid = true\<close>; when moreover both dimensions are at most \<open>INT_MAX\<close>,
  \<^verbatim>\<open>Compress\<close> raises \<^verbatim>\<open>std::runtime_error\<close> (CodecError) if the value codec reports zero
  bytes for the header or for the payload of the nonzero values, and otherwise produces
  an archive with \<open>is_valid = true\<close> and the dimensions of the matrix.
\<close>

theorem C4_zero_dimension_rejection:
  "(rows m = 0 \<or> columns m = 0 \<longrightarrow> Compress_matrix c m p = Inl invalid_argument) \<and>
   (rows m \<noteq> 0 \<and> columns m \<noteq> 0 \<longrightarrow>
      Compress_matrix c m p \<noteq> Inl invalid_argument \<and>
      (\<forall>a. Compress_matrix c m p = Inr a \<longrightarrow> is_valid_m a)) \<and>
   (rows m \<noteq> 0 \<and> columns m \<noteq> 0 \<and> rows m \<le> INT_MAX \<and> columns m \<le> INT_MAX \<and>
    (header_reported c (map (\<lambda>(i, j). at m i j) (nonzero_positions m)) [] p = 0 \<or>
     payload_reported c (map (\<lambda>(i, j). at m i j) (nonzero_positions m)) [] p = 0) \<longrightarrow>
      Compress_matrix c m p = Inl runtime_error) \<and>
   (rows m \<noteq> 0 \<and> columns m \<noteq> 0 \<and> rows m \<le> INT_MAX \<and> columns m \<le> INT_MAX \<and>
    header_reported c (map (\<lambda>(i, j). at m i j) (nonzero_positions m)) [] p \<noteq> 0 \<and>
    payload_reported c (map (\<lambda>(i, j). at m i j) (nonzero_positions m)) [] p \<noteq> 0 \<longrightarrow>
      (\<exists>a. Compress_matrix c m p = Inr a \<and> is_valid_m a \<and>
           rows_number a = rows m \<and> cols_number a = columns m))"
proof (intro conjI impI)
  assume "rows m = 0 \<or> columns m = 0"
  then show "Compress_matrix c m p = Inl invalid_argument"
    by (simp add: Compress_matrix_closed)
next
  assume "rows m \<noteq> 0 \<and> columns m \<noteq> 0"
  then show "Compress_matrix c m p \<noteq> Inl invalid_argument"
    by (auto simp add: Compress_matrix_closed split: sum.splits dest: CompressValues_Inl)
next
  assume "rows m \<noteq> 0 \<and> columns m \<noteq> 0"
  then show "\<forall>a. Compress_matrix c m p = Inr a \<longrightarrow> is_valid_m a"
    by (auto simp add: Compress_matrix_closed split: sum.splits if_splits)
next
  let ?vals = "map (\<lambda>(i, j). at m i j) (nonzero_positions m)"
  assume "rows m \<noteq> 0 \<and> columns m \<noteq> 0 \<and> rows m \<le> INT_MAX \<and> columns m \<le> INT_MAX \<and>
    (header_reported c ?vals [] p = 0 \<or> payload_reported c ?vals [] p = 0)"
  then have "CompressValues c ?vals [] p = Inl runtime_error"
    and "\<not> (rows m = 0 \<or> columns m = 0)" and "\<not> (INT_MAX < rows m \<or> INT_MAX < columns m)"
    by (simp_all add: CompressValues_cases)
  then show "Compress_matrix c m p = Inl runtime_error"
    by (simp only: Compress_matrix_closed if_False sum.case)
next
  let ?vals = "map (\<lambda>(i, j). at m i j) (nonzero_positions m)"
  assume a: "rows m \<noteq> 0 \<and> columns m \<noteq> 0 \<and> rows m \<le> INT_MAX \<and> columns m \<le> INT_MAX \<and>
    header_reported c ?vals [] p \<noteq> 0 \<and> payload_reported c ?vals [] p \<noteq> 0"
  then obtain bytes sz where "CompressValues c ?vals [] p = Inr (bytes, sz)"
    by (simp add: CompressValues_cases)
  moreover from a have "\<not> (rows m = 0 \<or> columns m = 0)"
    and "\<not> (INT_MAX < rows m \<or> INT_MAX < columns m)"
    by simp_all
  ultimately have "Compress_matrix c m p =
      Inr \<lparr>is_valid_m = True, nonzero_m = length (nonzero_positions m),
           rows_number = rows m, cols_number = columns m,
           indexes_m = fst (CompressIndexes c
             (map (\<lambda>(i, j). of_nat (i * columns m + j)) (nonzero_positions m)) []),
           values_m = bytes\<rparr>"
    by (simp only: Compress_matrix_closed if_False sum.case prod.case)
  then show "\<exists>a. Compress_matrix c m p = Inr a \<and> is_valid_m a \<and>
      rows_number a = rows m \<and> cols_number a = columns m"
    by simp
qed

theorem C4_zero_dimension_rejection_witness:
  "(rows \<lparr>rows = 0, columns = 3, elements = []\<rparr> = 0 \<or>
    columns \<lparr>rows = 0, columns = 3, elements = []\<rparr> = 0) \<and>
   Compress_matrix raw_codecs \<lparr>rows = 0, columns = 3, elements = []\<rparr> 0 = Inl invalid_argument \<and>
   rows \<lparr>rows = 2, columns = 2, elements = [0, 0x3F800000, 0, 0]\<rparr> \<noteq> 0 \<and>
   columns \<lparr>rows = 2, columns = 2, elements = [0, 0x3F800000, 0, 0]\<rparr> \<noteq> 0 \<and>
   rows \<lparr>rows = 2, columns = 2, elements = [0, 0x3F800000, 0, 0]\<rparr> \<le> INT_MAX \<and>
   columns \<lparr>rows = 2, columns = 2, elements = [0, 0x3F800000, 0, 0]\<rparr> \<le> INT_MAX \<and>
   header_reported raw_codecs [0x3F800000] [] 0 = 4 \<and>
   payload_reported raw_codecs [0x3F800000] [] 0 = 5 \<and>
   Compress_matrix raw_codecs \<lparr>rows = 2, columns = 2, elements = [0, 0x3F800000, 0, 0]\<rparr> 0 =
     Inr \<lparr>is_valid_m = True, nonzero_m = 1, rows_number = 2, cols_number = 2,
          indexes_m = raw_encode [1] @ replicate 16 0,
          values_m = bytes_of_word 1 @ raw_encode [0x3F800000] @ [1]\<rparr> \<and>
   Compress_matrix raw_codecs \<lparr>rows = 2, columns = 2, elements = [0, 0x3F800000, 0, 0]\<rparr> 0
     \<noteq> Inl invalid_argument \<and>
   is_valid_m \<lparr>is_valid_m = True, nonzero_m = 1, rows_number = 2, cols_number = 2,
          indexes_m = raw_encode [1] @ replicate 16 0,
          values_m = bytes_of_word 1 @ raw_encode [0x3F800000] @ [1]\<rparr> \<and>
   header_reported failing_value_codecs [0x3F800000] [] 0 = 0 \<and>
   Compress_matrix failing_value_codecs
       \<lparr>rows = 2, columns = 2, elements = [0, 0x3F800000, 0, 0]\<rparr> 0 = Inl runtime_error"
proof -
  let ?m0 = "\<lparr>rows = 0, columns = 3, elements = []\<rparr>"
  let ?m1 = "\<lparr>rows = 2, columns = 2, elements = [0, 0x3F800000, 0, 0]\<rparr>"
  let ?b = "\<lparr>is_valid_m = True, nonzero_m = 1, rows_number = 2, cols_number = 2,
            indexes_m = raw_encode [1] @ replicate 16 0,
            values_m = bytes_of_word 1 @ raw_encode [0x3F800000] @ [1]\<rparr>"
  have pos: "map (\<lambda>(i, j). at ?m1 i j) (nonzero_positions ?m1) = [0x3F800000]"
    by (simp add: nonzero_positions_def at_def float_ne_zero_def upt_conv_Cons)
  have e: "Compress_matrix raw_codecs ?m1 0 = Inr ?b"
    by (simp add: Compress_matrix_def ConvertToCSR_def loop_simps at_def float_ne_zero_def
        INT_MAX_def raw_CompressIndexes raw_CompressValues)
  have z: "rows ?m0 = 0 \<or> columns ?m0 = 0" by simp
  have n: "rows ?m1 \<noteq> 0 \<and> columns ?m1 \<noteq> 0" by simp
  have b: "rows ?m1 \<le> INT_MAX \<and> columns ?m1 \<le> INT_MAX" by (simp add: INT_MAX_def)
  have hr: "header_reported raw_codecs [0x3F800000] [] 0 = 4"
    and pr: "payload_reported raw_codecs [0x3F800000] [] 0 = 5"
    by (simp_all add: header_reported_def payload_reported_def CompressValues_stream_def
        raw_codecs_def int_of_size_t_small INT_MAX_def)
  have hf: "header_reported failing_value_codecs [0x3F800000] [] 0 = 0"
    by (simp add: header_reported_def failing_value_codecs_def)
  from C4_zero_dimension_rejection [of ?m0 raw_codecs 0] z
  have 1: "Compress_matrix raw_codecs ?m0 0 = Inl invalid_argument" by blast
  from C4_zero_dimension_rejection [of ?m1 raw_codecs 0] n e
  have 2: "Compress_matrix raw_codecs ?m1 0 \<noteq> Inl invalid_argument"
    and 3: "is_valid_m ?b"
    by blast+
  from C4_zero_dimension_rejection [of ?m1 failing_value_codecs 0] n b hf pos
  have 4: "Compress_matrix failing_value_codecs ?m1 0 = Inl runtime_error"
    by simp
  from z n b hr pr e 1 2 3 hf 4 show ?thesis by blast
qed

subsection \<open>The nonzero count\<close>

text \<open>
  Claim C5, as stated: the \<open>nonzero\<close> field of a produced archive equals the number of
  entries of the input whose bit pattern is nonzero. It fails on a negative zero, whose
  pattern \<open>0x80000000\<close> is nonzero while \<^verbatim>\<open>-0.0f != 0\<close> is false: the vector
  \<open>[-0.0, 1.0]\<close> has two entries with a nonzero bit pattern and its archive counts one.
\<close>

theorem C5_nonzero_count_counterexample:
  "Compress_vector raw_codecs [0x80000000, 0x3F800000] 0 =
     Inr \<lparr>is_valid = True, nonzero = 1, size_v = 2,
          indexes = raw_encode [1] @ replicate 16 0,
          values_v = bytes_of_word 1 @ raw_encode [0x3F800000] @ [1]\<rparr> \<and>
   length (filter bit_nonzero [0x80000000, 0x3F800000]) = 2"
  by (simp add: Compress_vector_def nonZeros_def loop_simps float_ne_zero_def INT_MAX_def
      raw_CompressIndexes raw_CompressValues bit_nonzero_def)

text \<open>
  Claim C5, amended: for every vector of at most \<open>INT_MAX\<close> elements and every matrix of
  at most \<open>INT_MAX\<close> rows and at most \<open>INT_MAX\<close> columns on which \<^verbatim>\<open>Compress\<close> produces
  an archive, the \<open>nonzero\<close> field equals the number of entries of the input that
  compare unequal to zero (\<^verbatim>\<open>x != 0\<close>, false for \<open>+0.0\<close> and for \<open>-0.0\<close>), and it is at
  most the number of elements of the input. The bound is that of the \<^verbatim>\<open>int\<close> counters of
  the loops that collect the entries.
\<close>

theorem C5_nonzero_count:
  "(length v \<le> INT_MAX \<and> Compress_vector c v p = Inr a \<longrightarrow>
      nonzero a = nonZeros v \<and> nonzero a \<le> length v) \<and>
   (wf_matrix m \<and> rows m \<le> INT_MAX \<and> columns m \<le> INT_MAX \<and>
    Compress_matrix c m p = Inr b \<longrightarrow>
      nonzero_m b = nonZeros (elements m) \<and> nonzero_m b \<le> rows m * columns m)"
proof (intro conjI impI)
  assume "length v \<le> INT_MAX \<and> Compress_vector c v p = Inr a"
  then have "nonzero a = nonZeros v"
    by (auto simp add: Compress_vector_closed default_ArchivedVector_def nonZeros_def
        split: if_splits sum.splits)
  then show "nonzero a = nonZeros v" and "nonzero a \<le> length v"
    by (simp_all add: nonZeros_le)
next
  assume h: "wf_matrix m \<and> rows m \<le> INT_MAX \<and> columns m \<le> INT_MAX \<and>
    Compress_matrix c m p = Inr b"
  then have "nonzero_m b = length (nonzero_positions m)"
    by (auto simp add: Compress_matrix_closed split: if_splits sum.splits)
  with h have n: "nonzero_m b = nonZeros (elements m)"
    by (simp add: length_nonzero_positions)
  then show "nonzero_m b = nonZeros (elements m)" .
  from n h show "nonzero_m b \<le> rows m * columns m"
    using nonZeros_le [of "elements m"] by (simp add: wf_matrix_def)
qed

theorem C5_nonzero_count_witness:
  "Compress_vector raw_codecs [0, 0x3F800000, 0x80000000] 0 =
     Inr \<lparr>is_valid = True, nonzero = 1, size_v = 3,
          indexes = raw_encode [1] @ replicate 16 0,
          values_v = bytes_of_word 1 @ raw_encode [0x3F800000] @ [1]\<rparr> \<and>
   length [0 :: float, 0x3F800000, 0x80000000] \<le> INT_MAX \<and>
   nonZeros [0, 0x3F800000, 0x80000000] = 1 \<and>
   rows \<lparr>rows = 2, columns = 2, elements = [0, 0x3F800000, 0, 0x40000000]\<rparr> \<le> INT_MAX \<and>
   columns \<lparr>rows = 2, columns = 2, elements = [0, 0x3F800000, 0, 0x40000000]\<rparr> \<le> INT_MAX \<and>
   wf_matrix \<lparr>rows = 2, columns = 2, elements = [0, 0x3F800000, 0, 0x40000000]\<rparr> \<and>
   Compress_matrix raw_codecs
       \<lparr>rows = 2, columns = 2, elements = [0, 0x3F800000, 0, 0x40000000]\<rparr> 0 =
     Inr \<lparr>is_valid_m = True, nonzero_m = 2, rows_number = 2, cols_number = 2,
          indexes_m = raw_encode [1, 3] @ replicate 16 0,
          values_m = bytes_of_word 2 @ raw_encode [0x3F800000, 0x40000000] @ [1]\<rparr> \<and>
   nonZeros (elements \<lparr>rows = 2, columns = 2, elements = [0, 0x3F800000, 0, 0x40000000]\<rparr>) = 2"
proof -
  let ?v = "[0, 0x3F800000, 0x80000000] :: float list"
  let ?m = "\<lparr>rows = 2, columns = 2, elements = [0, 0x3F800000, 0, 0x40000000]\<rparr>"
  let ?a = "\<lparr>is_valid = True, nonzero = 1, size_v = 3,
          indexes = raw_encode [1] @ replicate 16 0,
          values_v = bytes_of_word 1 @ raw_encode [0x3F800000] @ [1]\<rparr>"
  let ?b = "\<lparr>is_valid_m = True, nonzero_m = 2, rows_number = 2, cols_number = 2,
          indexes_m = raw_encode [1, 3] @ replicate 16 0,
          values_m = bytes_of_word 2 @ raw_encode [0x3F800000, 0x40000000] @ [1]\<rparr>"
  have v: "Compress_vector raw_codecs ?v 0 = Inr ?a"
    by (simp add: Compress_vector_def nonZeros_def loop_simps float_ne_zero_def INT_MAX_def
        raw_CompressIndexes raw_CompressValues)
  have w: "wf_matrix ?m" by (simp add: wf_matrix_def)
  have m: "Compress_matrix raw_codecs ?m 0 = Inr ?b"
    by (simp add: Compress_matrix_def ConvertToCSR_def loop_simps at_def float_ne_zero_def
        INT_MAX_def raw_CompressIndexes raw_CompressValues)
  have bv: "length ?v \<le> INT_MAX" by (simp add: INT_MAX_def)
  have bm: "rows ?m \<le> INT_MAX \<and> columns ?m \<le> INT_MAX" by (simp add: INT_MAX_def)
  from C5_nonzero_count [of ?v raw_codecs 0 ?a ?m ?b] bv bm v w m
  have "nonzero ?a = nonZeros ?v" and "nonzero_m ?b = nonZeros (elements ?m)"
    by blast+
  then have "nonZeros ?v = 1" and "nonZeros (elements ?m) = 2" by simp_all
  with bv bm v w m show ?thesis by blast
qed

subsection \<open>The dense-to-sparse converter\<close>

text \<open>
  Claim C6, as stated: for every dense matrix with \<open>R > 0\<close> and \<open>C > 0\<close> the indices
  that \<^verbatim>\<open>ConvertToCSR\<close> produces are strictly ascending and each equals
  \<open>row * C + col\<close>. It fails when \<open>R * C\<close> exceeds \<open>2 ^ 32\<close>: the index is cut to 32
  bits by the \<^verbatim>\<open>static_cast\<close>. In the matrix \<open>big_matrix\<close> the entry at row 2, column 2
  has the offset \<open>2 ^ 32\<close> and is stored with index 0, after the index 5 of the entry at
  row 0, column 5.
\<close>

theorem C6_dense_to_sparse_counterexample:
  "wf_matrix big_matrix \<and> 0 < rows big_matrix \<and> 0 < columns big_matrix \<and>
   at big_matrix 0 5 = 0x3F800000 \<and> at big_matrix 2 2 = 0x3F800000 \<and>
   2 * columns big_matrix + 2 = 4294967296 \<and>
   ConvertToCSR big_matrix = Inr ([5, 0], [0x3F800000, 0x3F800000]) \<and>
   \<not> sorted_wrt (<) [5, 0 :: uint32_t]"
proof -
  have w: "wf_matrix big_matrix" by (simp add: wf_matrix_def big_matrix_def)
  have d: "rows big_matrix = 3" "columns big_matrix = 2147483647"
    by (simp_all add: big_matrix_def)
  have e: "at big_matrix 0 5 = 0x3F800000" "at big_matrix 2 2 = 0x3F800000"
    by (simp_all add: at_def big_matrix_def nth_list_update)
  have v: "elements big_matrix ! 5 = 0x3F800000" "elements big_matrix ! 4294967296 = 0x3F800000"
    by (simp_all add: big_matrix_def nth_list_update)
  have "ConvertToCSR big_matrix =
     Inr (map of_nat (filter (\<lambda>k. float_ne_zero (elements big_matrix ! k))
            [0..<rows big_matrix * columns big_matrix]),
          map ((!) (elements big_matrix))
            (filter (\<lambda>k. float_ne_zero (elements big_matrix ! k))
               [0..<rows big_matrix * columns big_matrix]))"
    by (rule ConvertToCSR_linear) (simp_all add: d INT_MAX_def)
  then have c: "ConvertToCSR big_matrix = Inr ([5, 0], [0x3F800000, 0x3F800000])"
    by (simp add: d big_matrix_positions v)
  from w d e c show ?thesis by simp
qed

text \<open>
  Claim C6, amended: for every dense matrix of \<open>R\<close> rows and \<open>C\<close> columns with
  \<open>0 < R \<le> INT_MAX\<close>, \<open>0 < C \<le> INT_MAX\<close> and \<open>R * C \<le> 2 ^ 32\<close>, \<^verbatim>\<open>ConvertToCSR\<close>
  produces two sequences of equal length; the indices are strictly ascending and are
  the offsets \<open>row * C + col\<close> of the entries that compare unequal to zero (no epsilon),
  scanned in row-major order; the values are exactly those entries, in the same order.
\<close>

theorem C6_dense_to_sparse:
  assumes "wf_matrix m" and "0 < rows m" and "0 < columns m"
    and "rows m \<le> INT_MAX" and "columns m \<le> INT_MAX" and "rows m * columns m \<le> 2 ^ 32"
  shows "\<exists>idx vals. ConvertToCSR m = Inr (idx, vals) \<and>
           length idx = length vals \<and>
           sorted_wrt (<) idx \<and>
           map unat idx = map (\<lambda>(i, j). i * columns m + j) (nonzero_positions m) \<and>
           vals = map (\<lambda>(i, j). at m i j) (nonzero_positions m) \<and>
           vals = filter float_ne_zero (elements m)"
proof -
  let ?pos = "nonzero_positions m"
  let ?idx = "map (\<lambda>(i, j). of_nat (i * columns m + j)) ?pos :: uint32_t list"
  let ?vals = "map (\<lambda>(i, j). at m i j) ?pos"
  have c: "ConvertToCSR m = Inr (?idx, ?vals)"
    using assms by (simp add: ConvertToCSR_closed)
  have u: "map unat ?idx = map (\<lambda>(i, j). i * columns m + j) ?pos"
  proof -
    have "unat (of_nat (fst p * columns m + snd p) :: uint32_t) = fst p * columns m + snd p"
      if "p \<in> set ?pos" for p
    proof -
      from that have "fst p < rows m \<and> snd p < columns m"
        using nonzero_positions_bound [of "fst p" "snd p" m] by simp
      then have "fst p * columns m + snd p < rows m * columns m"
        by (simp add: linear_index_bound)
      with assms(6) have "fst p * columns m + snd p < 2 ^ 32" by simp
      then show ?thesis by (rule unat_of_nat32)
    qed
    then show ?thesis
      by (simp add: comp_def case_prod_unfold del: of_nat_add of_nat_mult)
  qed
  have s: "sorted_wrt (<) ?idx"
    using sorted_filter_upt [of "\<lambda>k. float_ne_zero (elements m ! k)" "rows m * columns m"]
    by (simp only: sorted_wrt_unat [symmetric] u linear_positions)
  have l: "length ?idx = length ?vals" by simp
  have vf: "?vals = filter float_ne_zero (elements m)"
    by (rule values_filter [OF assms(1)])
  show ?thesis
    by (intro exI conjI) (rule c, rule l, rule s, rule u, rule refl, rule vf)
qed

theorem C6_dense_to_sparse_witness:
  "wf_matrix \<lparr>rows = 2, columns = 3, elements = [0, 0x3F800000, 0x80000000, 0x40000000, 0, 0x7FC00000]\<rparr> \<and>
   (2 :: nat) \<le> INT_MAX \<and> (3 :: nat) \<le> INT_MAX \<and>
   ConvertToCSR \<lparr>rows = 2, columns = 3, elements = [0, 0x3F800000, 0x80000000, 0x40000000, 0, 0x7FC00000]\<rparr> =
     Inr ([1, 3, 5], [0x3F800000, 0x40000000, 0x7FC00000]) \<and>
   nonzero_positions \<lparr>rows = 2, columns = 3, elements = [0, 0x3F800000, 0x80000000, 0x40000000, 0, 0x7FC00000]\<rparr> =
     [(0, 1), (1, 0), (1, 2)] \<and>
   sorted_wrt (<) [1, 3, 5 :: uint32_t]"
proof -
  let ?m = "\<lparr>rows = 2, columns = 3,
             elements = [0, 0x3F800000, 0x80000000, 0x40000000, 0, 0x7FC00000]\<rparr>"
  have w: "wf_matrix ?m" by (simp add: wf_matrix_def)
  have b: "(2 :: nat) \<le> INT_MAX" "(3 :: nat) \<le> INT_MAX" by (simp_all add: INT_MAX_def)
  have c: "ConvertToCSR ?m = Inr ([1, 3, 5], [0x3F800000, 0x40000000, 0x7FC00000])"
    by (simp add: ConvertToCSR_def loop_simps at_def float_ne_zero_def INT_MAX_def)
  have p: "nonzero_positions ?m = [(0, 1), (1, 0), (1, 2)]"
    by (simp add: nonzero_positions_def at_def float_ne_zero_def upt_conv_Cons)
  from C6_dense_to_sparse [of ?m] w b c
  have "sorted_wrt (<) [1, 3, 5 :: uint32_t]"
    by simp
  with w b c p show ?thesis by simp
qed

subsection \<open>Lengths of the compressed byte vectors\<close>

text \<open>
  Claim C7, as stated: the length of the compressed indexes is exactly the length the
  index codec reports. It fails: \<^verbatim>\<open>CompressIndexes\<close> adds \<^verbatim>\<open>STREAMVBYTE_PADDING\<close> to the
  codec's return value before it trims the buffer. With the reference codec the one
  index of the vector \<open>[1.0]\<close> is reported as 4 bytes and stored as 20.
\<close>

theorem C7_compressed_lengths_counterexample:
  "Compress_vector raw_codecs [0x3F800000] 0 =
     Inr \<lparr>is_valid = True, nonzero = 1, size_v = 1,
          indexes = raw_encode [0] @ replicate 16 0,
          values_v = bytes_of_word 1 @ raw_encode [0x3F800000] @ [1]\<rparr> \<and>
   index_reported raw_codecs [0] [] = 4 \<and>
   length (raw_encode [0] @ replicate 16 (0 :: uint8_t)) = 20"
proof -
  have "index_reported raw_codecs [0] [] = 4"
    by (simp add: index_reported_def raw_codecs_def)
  then show ?thesis
    by (simp add: Compress_vector_def nonZeros_def loop_simps float_ne_zero_def INT_MAX_def
        raw_CompressIndexes raw_CompressValues)
qed

text \<open>
  Claim C7, amended: the byte length of the compressed indexes equals the length the
  index codec reports plus \<^verbatim>\<open>STREAMVBYTE_PADDING\<close>, and the byte length of the compressed
  values equals the sum of the header length and the payload length the value codec
  reports. This holds for the two adapters on every input, and for the two byte vectors
  of every archive with \<open>is_valid = true\<close> that \<^verbatim>\<open>Compress\<close> produces: every archive of a
  matrix, and every archive of a vector other than the sentinel. The sentinel archive,
  with \<open>is_valid = false\<close>, is returned before any codec is called and its two byte
  vectors are empty.
\<close>

theorem C7_compressed_lengths:
  "length (fst (CompressIndexes c idx compressed)) =
     index_reported c idx compressed + STREAMVBYTE_PADDING c \<and>
   (CompressValues c vals compressed' p = Inr (bytes, sz) \<longrightarrow>
      length bytes = header_reported c vals compressed' p + payload_reported c vals compressed' p) \<and>
   (Compress_vector c v p = Inr a \<and> is_valid a \<longrightarrow>
      length (indexes a) =
        index_reported c (map of_nat (vector_positions v)) [] + STREAMVBYTE_PADDING c \<and>
      length (values_v a) =
        header_reported c (filter float_ne_zero v) [] p +
        payload_reported c (filter float_ne_zero v) [] p) \<and>
   (Compress_vector c v p = Inr a \<and> \<not> is_valid a \<longrightarrow> indexes a = [] \<and> values_v a = []) \<and>
   (Compress_matrix c m p = Inr b \<longrightarrow>
      length (indexes_m b) =
        index_reported c (map (\<lambda>(i, j). of_nat (i * columns m + j)) (nonzero_positions m)) [] +
        STREAMVBYTE_PADDING c \<and>
      length (values_m b) =
        header_reported c (map (\<lambda>(i, j). at m i j) (nonzero_positions m)) [] p +
        payload_reported c (map (\<lambda>(i, j). at m i j) (nonzero_positions m)) [] p)"
proof (intro conjI impI)
  show "length (fst (CompressIndexes c idx compressed)) =
     index_reported c idx compressed + STREAMVBYTE_PADDING c"
    by (rule CompressIndexes_length)
next
  assume "CompressValues c vals compressed' p = Inr (bytes, sz)"
  then show "length bytes =
      header_reported c vals compressed' p + payload_reported c vals compressed' p"
    by (simp add: CompressValues_Inr)
next
  assume h: "Compress_vector c v p = Inr a \<and> is_valid a"
  then obtain cv sz where
    cv: "CompressValues c (filter float_ne_zero v) [] p = Inr (cv, sz)" and
    a: "a = \<lparr>is_valid = True, nonzero = nonZeros v, size_v = length v,
             indexes = fst (CompressIndexes c (map of_nat (vector_positions v)) []),
             values_v = cv\<rparr>"
    by (auto simp add: Compress_vector_closed default_ArchivedVector_def
        split: if_splits sum.splits)
  from a show "length (indexes a) =
      index_reported c (map of_nat (vector_positions v)) [] + STREAMVBYTE_PADDING c"
    by (simp add: CompressIndexes_length)
  from a cv show "length (values_v a) =
      header_reported c (filter float_ne_zero v) [] p +
      payload_reported c (filter float_ne_zero v) [] p"
    by (simp add: CompressValues_Inr)
next
  assume "Compress_vector c v p = Inr a \<and> \<not> is_valid a"
  then show "indexes a = []" and "values_v a = []"
    by (auto simp add: Compress_vector_closed default_ArchivedVector_def
        split: if_splits sum.splits)
next
  assume h: "Compress_matrix c m p = Inr b"
  let ?vals = "map (\<lambda>(i, j). at m i j) (nonzero_positions m)"
  let ?idx = "map (\<lambda>(i, j). of_nat (i * columns m + j)) (nonzero_positions m) :: uint32_t list"
  from h obtain cv sz where
    cv: "CompressValues c ?vals [] p = Inr (cv, sz)" and
    b: "indexes_m b = fst (CompressIndexes c ?idx [])" "values_m b = cv"
    by (auto simp add: Compress_matrix_closed split: if_splits sum.splits)
  from b show "length (indexes_m b) = index_reported c ?idx [] + STREAMVBYTE_PADDING c"
    by (simp only: CompressIndexes_length)
  from b cv show "length (values_m b) =
      header_reported c ?vals [] p + payload_reported c ?vals [] p"
    by (simp only: CompressValues_Inr)
qed

theorem C7_compressed_lengths_witness:
  "Compress_vector raw_codecs [0, 0x3F800000] 0 =
     Inr \<lparr>is_valid = True, nonzero = 1, size_v = 2,
          indexes = raw_encode [1] @ replicate 16 0,
          values_v = bytes_of_word 1 @ raw_encode [0x3F800000] @ [1]\<rparr> \<and>
   index_reported raw_codecs (map of_nat (vector_positions [0, 0x3F800000])) [] +
     STREAMVBYTE_PADDING raw_codecs = 20 \<and>
   header_reported raw_codecs (filter float_ne_zero [0, 0x3F800000]) [] 0 +
     payload_reported raw_codecs (filter float_ne_zero [0, 0x3F800000]) [] 0 = 9 \<and>
   CompressValues raw_codecs [0x3F800000] [] 0 =
     Inr (bytes_of_word 1 @ raw_encode [0x3F800000] @ [1], 9) \<and>
   Compress_matrix raw_codecs \<lparr>rows = 1, columns = 2, elements = [0x3F800000, 0]\<rparr> 0 =
     Inr \<lparr>is_valid_m = True, nonzero_m = 1, rows_number = 1, cols_number = 2,
          indexes_m = raw_encode [0] @ replicate 16 0,
          values_m = bytes_of_word 1 @ raw_encode [0x3F800000] @ [1]\<rparr> \<and>
   Compress_vector raw_codecs [0, 0x80000000] 0 =
     Inr \<lparr>is_valid = False, nonzero = 0, size_v = 0, indexes = [], values_v = []\<rparr> \<and>
   \<not> is_valid \<lparr>is_valid = False, nonzero = 0, size_v = 0, indexes = [], values_v = []\<rparr> \<and>
   indexes \<lparr>is_valid = False, nonzero = 0, size_v = 0, indexes = [], values_v = []\<rparr> = []"
proof -
  let ?v = "[0, 0x3F800000] :: float list"
  let ?m = "\<lparr>rows = 1, columns = 2, elements = [0x3F800000, 0]\<rparr>"
  let ?a = "\<lparr>is_valid = True, nonzero = 1, size_v = 2,
          indexes = raw_encode [1] @ replicate 16 0,
          values_v = bytes_of_word 1 @ raw_encode [0x3F800000] @ [1]\<rparr>"
  let ?b = "\<lparr>is_valid_m = True, nonzero_m = 1, rows_number = 1, cols_number = 2,
          indexes_m = raw_encode [0] @ replicate 16 0,
          values_m = bytes_of_word 1 @ raw_encode [0x3F800000] @ [1]\<rparr>"
  have v: "Compress_vector raw_codecs ?v 0 = Inr ?a"
    by (simp add: Compress_vector_def nonZeros_def loop_simps float_ne_zero_def INT_MAX_def
        raw_CompressIndexes raw_CompressValues)
  have cv: "CompressValues raw_codecs [0x3F800000] [] 0 =
      Inr (bytes_of_word 1 @ raw_encode [0x3F800000] @ [1], 9)"
    by (simp add: raw_CompressValues INT_MAX_def)
  have m: "Compress_matrix raw_codecs ?m 0 = Inr ?b"
    by (simp add: Compress_matrix_def ConvertToCSR_def loop_simps at_def float_ne_zero_def
        INT_MAX_def raw_CompressIndexes raw_CompressValues)
  have va: "is_valid ?a" by simp
  let ?s = "\<lparr>is_valid = False, nonzero = 0, size_v = 0, indexes = [], values_v = []\<rparr>"
  have s: "Compress_vector raw_codecs [0, 0x80000000] 0 = Inr ?s"
    by (simp add: Compress_vector_def nonZeros_def float_ne_zero_def
        default_ArchivedVector_def)
  have ns: "\<not> is_valid ?s" by simp
  from C7_compressed_lengths [of raw_codecs "[]" "[]" "[0x3F800000]" "[]" 0
      "bytes_of_word 1 @ raw_encode [0x3F800000] @ [1]" 9 "[0, 0x80000000]" ?s ?m ?b] s ns
  have es: "indexes ?s = []"
    by blast
  from C7_compressed_lengths [of raw_codecs "[]" "[]" "[0x3F800000]" "[]" 0
      "bytes_of_word 1 @ raw_encode [0x3F800000] @ [1]" 9 ?v ?a ?m ?b] v va cv m
  have "length (indexes ?a) =
        index_reported raw_codecs (map of_nat (vector_positions ?v)) [] +
        STREAMVBYTE_PADDING raw_codecs"
    and "length (values_v ?a) =
        header_reported raw_codecs (filter float_ne_zero ?v) [] 0 +
        payload_reported raw_codecs (filter float_ne_zero ?v) [] 0"
    by blast+
  then have "index_reported raw_codecs (map of_nat (vector_positions ?v)) [] +
        STREAMVBYTE_PADDING raw_codecs = 20"
    and "header_reported raw_codecs (filter float_ne_zero ?v) [] 0 +
        payload_reported raw_codecs (filter float_ne_zero ?v) [] 0 = 9"
    by simp_all
  with v cv m s ns es show ?thesis by blast
qed

subsection \<open>Codec failures\<close>

text \<open>
  Claim C8, as stated: on a nonempty input, a zero-length result of the index codec
  makes the index adapter raise \<^verbatim>\<open>std::runtime_error\<close> (CodecError). It fails:
  \<^verbatim>\<open>CompressIndexes\<close> does not test the codec's return value. With an index codec that
  reports zero, the adapter returns the padding alone and \<^verbatim>\<open>Compress\<close> of the vector
  \<open>[1.0]\<close> returns a valid archive.
\<close>

theorem C8_codec_error_counterexample:
  "index_reported silent_index_codecs [0] [] = 0 \<and>
   CompressIndexes silent_index_codecs [0] [] = (replicate 16 0, 16) \<and>
   Compress_vector silent_index_codecs [0x3F800000] 0 =
     Inr \<lparr>is_valid = True, nonzero = 1, size_v = 1, indexes = replicate 16 0,
          values_v = bytes_of_word 1 @ raw_encode [0x3F800000] @ [1]\<rparr>"
proof -
  have i: "CompressIndexes silent_index_codecs [0] [] = (replicate 16 0, 16)"
    by (simp add: CompressIndexes_def silent_index_codecs_def raw_codecs_def resize_def)
  have r: "index_reported silent_index_codecs [0] [] = 0"
    by (simp add: index_reported_def silent_index_codecs_def)
  from i r show ?thesis
    by (simp add: Compress_vector_def nonZeros_def loop_simps float_ne_zero_def INT_MAX_def
        silent_CompressValues raw_CompressValues)
qed

text \<open>
  Claim C8, amended: for every input sequence, empty or not, the value adapter raises
  \<^verbatim>\<open>std::runtime_error\<close> (CodecError) if the value codec reports zero bytes for the
  header or for the payload, and returns the buffer trimmed to the sum of the two
  otherwise. The index adapter never raises: it returns the codec's reported length
  plus the padding, so that a \<^verbatim>\<open>std::runtime_error\<close> of the vector \<^verbatim>\<open>Compress\<close> always
  comes from the value codec.
\<close>

theorem C8_codec_error:
  "(header_reported c vals compressed p = 0 \<or> payload_reported c vals compressed p = 0 \<longrightarrow>
      CompressValues c vals compressed p = Inl runtime_error) \<and>
   (header_reported c vals compressed p \<noteq> 0 \<and> payload_reported c vals compressed p \<noteq> 0 \<longrightarrow>
      (\<exists>bytes. CompressValues c vals compressed p =
         Inr (bytes, header_reported c vals compressed p + payload_reported c vals compressed p))) \<and>
   snd (CompressIndexes c idx compressed') =
     index_reported c idx compressed' + STREAMVBYTE_PADDING c \<and>
   (Compress_vector c v p = Inl runtime_error \<longrightarrow>
      header_reported c (filter float_ne_zero v) [] p = 0 \<or>
      payload_reported c (filter float_ne_zero v) [] p = 0)"
proof (intro conjI impI)
  assume "header_reported c vals compressed p = 0 \<or> payload_reported c vals compressed p = 0"
  then show "CompressValues c vals compressed p = Inl runtime_error"
    by (simp add: CompressValues_cases)
next
  assume "header_reported c vals compressed p \<noteq> 0 \<and> payload_reported c vals compressed p \<noteq> 0"
  then show "\<exists>bytes. CompressValues c vals compressed p =
         Inr (bytes, header_reported c vals compressed p + payload_reported c vals compressed p)"
    by (simp add: CompressValues_cases)
next
  show "snd (CompressIndexes c idx compressed') =
     index_reported c idx compressed' + STREAMVBYTE_PADDING c"
    by (rule CompressIndexes_size)
next
  assume h: "Compress_vector c v p = Inl runtime_error"
  show "header_reported c (filter float_ne_zero v) [] p = 0 \<or>
      payload_reported c (filter float_ne_zero v) [] p = 0"
  proof (rule ccontr)
    assume "\<not> ?thesis"
    then have "\<exists>r. CompressValues c (filter float_ne_zero v) [] p = Inr r"
      by (simp add: CompressValues_cases)
    with h show False
      by (auto simp add: Compress_vector_closed split: if_splits)
  qed
qed

theorem C8_codec_error_witness:
  "header_reported (raw_codecs\<lparr>fpzip_write_header := (\<lambda>fpz. (fpz, 0))\<rparr>) [0x3F800000] [] 0 = 0 \<and>
   CompressValues (raw_codecs\<lparr>fpzip_write_header := (\<lambda>fpz. (fpz, 0))\<rparr>) [0x3F800000] [] 0 =
     Inl runtime_error \<and>
   Compress_vector (raw_codecs\<lparr>fpzip_write_header := (\<lambda>fpz. (fpz, 0))\<rparr>) [0x3F800000] 0 =
     Inl runtime_error \<and>
   header_reported raw_codecs [0x3F800000] [] 0 \<noteq> 0 \<and>
   payload_reported raw_codecs [0x3F800000] [] 0 \<noteq> 0 \<and>
   CompressValues raw_codecs [0x3F800000] [] 0 =
     Inr (bytes_of_word 1 @ raw_encode [0x3F800000] @ [1], 9)"
proof -
  let ?c = "raw_codecs\<lparr>fpzip_write_header := (\<lambda>fpz. (fpz, 0))\<rparr>"
  have h0: "header_reported ?c [0x3F800000] [] 0 = 0"
    by (simp add: header_reported_def)
  from C8_codec_error [of ?c "[0x3F800000]" "[]" 0] h0
  have e: "CompressValues ?c [0x3F800000] [] 0 = Inl runtime_error"
    by blast
  then have v: "Compress_vector ?c [0x3F800000] 0 = Inl runtime_error"
    by (simp add: Compress_vector_def nonZeros_def loop_simps float_ne_zero_def INT_MAX_def
        split: prod.splits)
  have h1: "header_reported raw_codecs [0x3F800000] [] 0 \<noteq> 0"
    and p1: "payload_reported raw_codecs [0x3F800000] [] 0 \<noteq> 0"
    by (simp_all add: header_reported_def payload_reported_def raw_codecs_def)
  have cv: "CompressValues raw_codecs [0x3F800000] [] 0 =
      Inr (bytes_of_word 1 @ raw_encode [0x3F800000] @ [1], 9)"
    by (simp add: raw_CompressValues INT_MAX_def)
  from h0 e v h1 p1 cv show ?thesis by blast
qed

subsection \<open>The round trip of the 4 by 4 matrix\<close>

text \<open>
  Claim C9. For the matrix \<open>[[1,0,0,2],[0,0,3,0],[0,4,0,0],[0,0,0,5]]\<close> and external codecs
  that meet their contracts (streamvbyte decodes what it encoded, fpzip is lossless at
  precision 0), \<^verbatim>\<open>Compress\<close> at precision 0 produces an archive of 4 rows,
  4 columns and 5 nonzero entries; \<^verbatim>\<open>Decompress\<close> of it decodes the indices 0, 3, 6, 9
  and 15, returns the zero-filled 4 by 4 matrix with each decoded value written at row
  \<open>index div 4\<close> and column \<open>index mod 4\<close>, and that matrix is the original one.
\<close>

theorem C9_matrix_round_trip:
  assumes idx: "streamvbyte_contract c" and vals: "fpzip_lossless c"
  shows "(\<exists>a. Compress_matrix c matrix_4x4 0 = Inr a \<and>
            rows_number a = 4 \<and> cols_number a = 4 \<and> nonzero_m a = 5 \<and>
            DecompressIndexes c (indexes_m a) (resize (nonzero_m a) []) = [0, 3, 6, 9, 15] \<and>
            Decompress_matrix c a =
              Inr (scatter_dense 4 4 [0, 3, 6, 9, 15]
                     [0x3F800000, 0x40000000, 0x40400000, 0x40800000, 0x40A00000]) \<and>
            Decompress_matrix c a = Inr matrix_4x4)"
proof -
  let ?idx = "[0, 3, 6, 9, 15] :: uint32_t list"
  let ?vals = "[0x3F800000, 0x40000000, 0x40400000, 0x40800000, 0x40A00000] :: float list"
  have "0 < length ?vals" and "length ?vals \<le> INT_MAX" by (simp_all add: INT_MAX_def)
  from fpzip_lossless_adapters [OF vals this] obtain cv sz where
    cv: "CompressValues c ?vals [] 0 = Inr (cv, sz)" and
    dv: "DecompressValues c cv (resize (length ?vals) []) = Inr ?vals"
    by blast
  let ?a = "\<lparr>is_valid_m = True, nonzero_m = 5, rows_number = 4, cols_number = 4,
             indexes_m = fst (CompressIndexes c ?idx []), values_m = cv\<rparr>"
  have a: "Compress_matrix c matrix_4x4 0 = Inr ?a"
    using cv by (simp add: Compress_matrix_def matrix_4x4_csr Let_def split: prod.splits)
      (simp add: matrix_4x4_def)
  have r5: "replicate 5 x = [x, x, x, x, x]" for x :: "'a"
    by (simp add: eval_nat_numeral)
  have "length ?idx < 2 ^ 32" by simp
  with idx have "DecompressIndexes c (fst (CompressIndexes c ?idx [])) (resize (length ?idx) [])
      = ?idx"
    by (rule streamvbyte_contract_round_trip)
  then have di: "DecompressIndexes c (fst (CompressIndexes c ?idx [])) (replicate 5 0) = ?idx"
    by (simp add: r5)
  from dv have dv': "DecompressValues c cv (replicate 5 0) = Inr ?vals" by (simp add: r5)
  have "ConvertFromCSR ?idx ?vals ?a = Inr (scatter_dense 4 4 ?idx ?vals)"
    using ConvertFromCSR_closed [of ?a ?vals ?idx] by simp
  then have d: "Decompress_matrix c ?a = Inr (scatter_dense 4 4 ?idx ?vals)"
    by (simp add: Decompress_matrix_def di dv')
  from a d di show ?thesis by (simp add: matrix_4x4_scatter)
qed

theorem C9_matrix_round_trip_witness:
  "streamvbyte_contract raw_codecs \<and> fpzip_lossless raw_codecs \<and>
   Compress_matrix raw_codecs matrix_4x4 0 =
     Inr \<lparr>is_valid_m = True, nonzero_m = 5, rows_number = 4, cols_number = 4,
          indexes_m = raw_encode [0, 3, 6, 9, 15] @ replicate 16 0,
          values_m = bytes_of_word 5 @
            raw_encode [0x3F800000, 0x40000000, 0x40400000, 0x40800000, 0x40A00000] @ [1]\<rparr> \<and>
   Decompress_matrix raw_codecs
     \<lparr>is_valid_m = True, nonzero_m = 5, rows_number = 4, cols_number = 4,
      indexes_m = raw_encode [0, 3, 6, 9, 15] @ replicate 16 0,
      values_m = bytes_of_word 5 @
        raw_encode [0x3F800000, 0x40000000, 0x40400000, 0x40800000, 0x40A00000] @ [1]\<rparr> =
     Inr matrix_4x4"
proof -
  let ?a = "\<lparr>is_valid_m = True, nonzero_m = 5, rows_number = 4, cols_number = 4,
          indexes_m = raw_encode [0, 3, 6, 9, 15] @ replicate 16 0,
          values_m = bytes_of_word 5 @
            raw_encode [0x3F800000, 0x40000000, 0x40400000, 0x40800000, 0x40A00000] @ [1]\<rparr>"
  have i: "streamvbyte_contract raw_codecs" by (rule raw_streamvbyte_contract)
  have l: "fpzip_lossless raw_codecs" by (rule raw_fpzip_lossless)
  have c: "Compress_matrix raw_codecs matrix_4x4 0 = Inr ?a"
    by (simp add: Compress_matrix_def matrix_4x4_csr raw_CompressIndexes raw_CompressValues
        INT_MAX_def) (simp add: matrix_4x4_def)
  from C9_matrix_round_trip [OF i l] c
  have "Decompress_matrix raw_codecs ?a = Inr matrix_4x4"
    by auto
  with i l c show ?thesis by blast
qed

subsection \<open>The scatter writes stay in bounds\<close>

text \<open>
  Claim C10. For an index codec that decodes what it has encoded, and every archive
  that \<^verbatim>\<open>Compress\<close> produces from a vector or a matrix: every index decoded by
  \<^verbatim>\<open>Decompress\<close> is strictly below the stored length (vector) or below
  \<open>rows_number * cols_number\<close> (matrix), the divisor \<open>cols_number\<close> is not zero, and
  \<^verbatim>\<open>Decompress\<close> ends with a result or with the \<^verbatim>\<open>std::runtime_error\<close> of the value
  codec, never with an access outside the vector or the matrix.
\<close>

theorem C10_scatter_in_bounds:
  assumes "index_codec_faithful c"
  shows "(Compress_vector c v p = Inr a \<longrightarrow>
            (\<forall>x\<in>set (DecompressIndexes c (indexes a) (resize (nonzero a) [])).
               unat x < size_v a) \<and>
            (Decompress_vector c a = Inl runtime_error \<or> (\<exists>r. Decompress_vector c a = Inr r))) \<and>
         (Compress_matrix c m p = Inr b \<longrightarrow>
            (\<forall>x\<in>set (DecompressIndexes c (indexes_m b) (resize (nonzero_m b) [])).
               unat x < rows_number b * cols_number b) \<and>
            cols_number b \<noteq> 0 \<and>
            (Decompress_matrix c b = Inl runtime_error \<or> (\<exists>r. Decompress_matrix c b = Inr r)))"
proof (intro conjI impI)
  assume h: "Compress_vector c v p = Inr a"
  let ?idx = "map of_nat (vector_positions v) :: uint32_t list"
  show bound: "\<forall>x\<in>set (DecompressIndexes c (indexes a) (resize (nonzero a) [])). unat x < size_v a"
  proof (cases "is_valid a")
    case False
    with h have "nonzero a = 0"
      by (auto simp add: Compress_vector_closed default_ArchivedVector_def
          split: if_splits sum.splits)
    then show ?thesis by (simp add: DecompressIndexes_def store_def)
  next
    case True
    with h have a: "nonzero a = length ?idx" "size_v a = length v"
        "indexes a = fst (CompressIndexes c ?idx [])" and ne: "v \<noteq> []"
      by (auto simp add: Compress_vector_closed default_ArchivedVector_def
          length_vector_positions split: if_splits sum.splits)
    have "unat x < length v" if "x \<in> set ?idx \<union> {0}" for x
    proof -
      from that consider k where "k \<in> set (vector_positions v)" "x = of_nat k" | "x = 0"
        by auto
      then show ?thesis
      proof cases
        case 1
        then show ?thesis
          using unat_of_nat32_le [of k] vector_positions_bound [of k v] by simp
      next
        case 2
        with ne show ?thesis by simp
      qed
    qed
    with faithful_decoded_set [OF assms, of ?idx] show ?thesis
      by (auto simp add: a)
  qed
  then show "Decompress_vector c a = Inl runtime_error \<or> (\<exists>r. Decompress_vector c a = Inr r)"
    by (intro Decompress_vector_safe) simp
next
  assume h: "Compress_matrix c m p = Inr b"
  let ?idx = "map (\<lambda>(i, j). of_nat (i * columns m + j)) (nonzero_positions m) :: uint32_t list"
  from h have b: "is_valid_m b" "nonzero_m b = length ?idx" "rows_number b = rows m"
      "cols_number b = columns m" "indexes_m b = fst (CompressIndexes c ?idx [])"
    and d: "rows m \<noteq> 0" "columns m \<noteq> 0"
    by (auto simp add: Compress_matrix_closed split: if_splits sum.splits)
  from d b show c0: "cols_number b \<noteq> 0" by simp
  have "unat x < rows m * columns m" if "x \<in> set ?idx \<union> {0}" for x
  proof -
    from that consider i j where "(i, j) \<in> set (nonzero_positions m)"
        "x = of_nat (i * columns m + j)" | "x = 0"
      by auto
    then show ?thesis
    proof cases
      case 1
      from 1(1) have "i * columns m + j < rows m * columns m"
        using nonzero_positions_bound linear_index_bound by blast
      with 1(2) show ?thesis
        using unat_of_nat32_le [of "i * columns m + j"] by simp
    next
      case 2
      with d show ?thesis by simp
    qed
  qed
  with faithful_decoded_set [OF assms, of ?idx]
  show bound: "\<forall>x\<in>set (DecompressIndexes c (indexes_m b) (resize (nonzero_m b) [])).
      unat x < rows_number b * cols_number b"
    by (auto simp add: b simp del: of_nat_add of_nat_mult)
  then show "Decompress_matrix c b = Inl runtime_error \<or> (\<exists>r. Decompress_matrix c b = Inr r)"
    by (intro Decompress_matrix_safe [OF b(1) c0]) simp
qed

theorem C10_scatter_in_bounds_witness:
  "index_codec_faithful raw_codecs \<and>
   Compress_vector raw_codecs [0, 0x3F800000] 0 =
     Inr \<lparr>is_valid = True, nonzero = 1, size_v = 2,
          indexes = raw_encode [1] @ replicate 16 0,
          values_v = bytes_of_word 1 @ raw_encode [0x3F800000] @ [1]\<rparr> \<and>
   DecompressIndexes raw_codecs (raw_encode [1] @ replicate 16 0) (resize 1 []) = [1] \<and>
   unat (1 :: uint32_t) < 2 \<and>
   Decompress_vector raw_codecs
     \<lparr>is_valid = True, nonzero = 1, size_v = 2,
      indexes = raw_encode [1] @ replicate 16 0,
      values_v = bytes_of_word 1 @ raw_encode [0x3F800000] @ [1]\<rparr> = Inr [0, 0x3F800000] \<and>
   Compress_matrix raw_codecs \<lparr>rows = 2, columns = 2, elements = [0, 0, 0, 0x3F800000]\<rparr> 0 =
     Inr \<lparr>is_valid_m = True, nonzero_m = 1, rows_number = 2, cols_number = 2,
          indexes_m = raw_encode [3] @ replicate 16 0,
          values_m = bytes_of_word 1 @ raw_encode [0x3F800000] @ [1]\<rparr> \<and>
   DecompressIndexes raw_codecs (raw_encode [3] @ replicate 16 0) (resize 1 []) = [3] \<and>
   unat (3 :: uint32_t) < 2 * 2 \<and>
   Decompress_matrix raw_codecs
     \<lparr>is_valid_m = True, nonzero_m = 1, rows_number = 2, cols_number = 2,
      indexes_m = raw_encode [3] @ replicate 16 0,
      values_m = bytes_of_word 1 @ raw_encode [0x3F800000] @ [1]\<rparr> =
     Inr \<lparr>rows = 2, columns = 2, elements = [0, 0, 0, 0x3F800000]\<rparr>"
proof -
  let ?v = "[0, 0x3F800000] :: float list"
  let ?m = "\<lparr>rows = 2, columns = 2, elements = [0, 0, 0, 0x3F800000]\<rparr>"
  let ?a = "\<lparr>is_valid = True, nonzero = 1, size_v = 2,
          indexes = raw_encode [1] @ replicate 16 0,
          values_v = bytes_of_word 1 @ raw_encode [0x3F800000] @ [1]\<rparr>"
  let ?b = "\<lparr>is_valid_m = True, nonzero_m = 1, rows_number = 2, cols_number = 2,
          indexes_m = raw_encode [3] @ replicate 16 0,
          values_m = bytes_of_word 1 @ raw_encode [0x3F800000] @ [1]\<rparr>"
  have f: "index_codec_faithful raw_codecs" by (rule raw_index_codec_faithful)
  have cv: "Compress_vector raw_codecs ?v 0 = Inr ?a"
    by (simp add: Compress_vector_def nonZeros_def loop_simps float_ne_zero_def INT_MAX_def
        raw_CompressIndexes raw_CompressValues)
  have cm: "Compress_matrix raw_codecs ?m 0 = Inr ?b"
    by (simp add: Compress_matrix_def ConvertToCSR_def loop_simps at_def float_ne_zero_def
        INT_MAX_def raw_CompressIndexes raw_CompressValues)
  have i1: "DecompressIndexes raw_codecs (raw_encode [1] @ replicate 16 0) (resize 1 []) = [1]"
    using raw_decode_encode [of "[1]" "replicate 16 0"]
    by (simp add: DecompressIndexes_def raw_codecs_def store_def)
  have i3: "DecompressIndexes raw_codecs (raw_encode [3] @ replicate 16 0) (resize 1 []) = [3]"
    using raw_decode_encode [of "[3]" "replicate 16 0"]
    by (simp add: DecompressIndexes_def raw_codecs_def store_def)
  have dv: "DecompressValues raw_codecs (bytes_of_word 1 @ raw_encode [0x3F800000] @ [1]) [0] =
      Inr [0x3F800000]"
    using raw_DecompressValues [of "[0x3F800000]"] by (simp add: INT_MAX_def)
  have d1: "Decompress_vector raw_codecs ?a = Inr [0, 0x3F800000]"
    using i1 by (simp add: Decompress_vector_def dv loop_simps numeral_2_eq_2)
  have "ConvertFromCSR [3] [0x3F800000] ?b = Inr ?m"
    by (simp add: ConvertFromCSR_def loop_simps Let_def) (simp add: numeral_eq_Suc)
  with i3 have d2: "Decompress_matrix raw_codecs ?b = Inr ?m"
    by (simp add: Decompress_matrix_def dv)
  from C10_scatter_in_bounds [OF f, of ?v 0 ?a ?m ?b] cv cm
  have "\<forall>x\<in>set (DecompressIndexes raw_codecs (indexes ?a) (resize (nonzero ?a) [])).
          unat x < size_v ?a"
    and "\<forall>x\<in>set (DecompressIndexes raw_codecs (indexes_m ?b) (resize (nonzero_m ?b) [])).
          unat x < rows_number ?b * cols_number ?b"
    by blast+
  with i1 i3 have "unat (1 :: uint32_t) < 2" and "unat (3 :: uint32_t) < 2 * 2"
    by simp_all
  with f cv cm i1 i3 d1 d2 show ?thesis by blast
qed

section \<open>Further properties\<close>

subsection \<open>The round trip of a matrix\<close>

text \<open>
  Beyond the 4 by 4 example, the round trip holds for every matrix whose offsets fit
  the 32-bit index: for codecs that are lossless at precision 0 and every dense matrix of
  \<open>R\<close> rows and \<open>C\<close> columns with \<open>0 < R \<le> INT_MAX\<close>, \<open>0 < C \<le> INT_MAX\<close>,
  \<open>R * C \<le> 2 ^ 32\<close> and between 1 and \<open>INT_MAX\<close> entries that compare unequal to
  zero, \<^verbatim>\<open>Decompress\<close> of the archive that \<^verbatim>\<open>Compress\<close> produces at precision 0 returns
  the matrix with every negative zero replaced by \<open>+0.0\<close> and every other entry
  bit-exact.
\<close>

theorem general_matrix_round_trip:
  assumes idx: "streamvbyte_contract c" and vals: "fpzip_lossless c"
    and wf: "wf_matrix m"
    and dims: "0 < rows m" "0 < columns m" "rows m \<le> INT_MAX" "columns m \<le> INT_MAX"
      "rows m * columns m \<le> 2 ^ 32"
    and nz: "0 < nonZeros (elements m)" "nonZeros (elements m) \<le> INT_MAX"
  shows "\<exists>a. Compress_matrix c m 0 = Inr a \<and>
             Decompress_matrix c a = Inr (m\<lparr>elements := map normalize_zero (elements m)\<rparr>)"
proof -
  let ?es = "elements m"
  let ?ks = "vector_positions ?es"
  let ?idx = "map of_nat ?ks :: uint32_t list"
  let ?vals = "map ((!) ?es) ?ks"
  have len: "length ?es = rows m * columns m" using wf by (simp add: wf_matrix_def)
  have csr: "ConvertToCSR m = Inr (?idx, ?vals)"
    using dims by (simp add: ConvertToCSR_linear vector_positions_def len)
  have n: "length ?vals = nonZeros ?es" by (simp add: length_vector_positions)
  with nz have "0 < length ?vals" and "length ?vals \<le> INT_MAX" by simp_all
  from fpzip_lossless_adapters [OF vals this] obtain cv sz where
    cv: "CompressValues c ?vals [] 0 = Inr (cv, sz)" and
    dv: "DecompressValues c cv (resize (length ?vals) []) = Inr ?vals"
    by blast
  let ?a = "\<lparr>is_valid_m = True, nonzero_m = length ?vals, rows_number = rows m,
             cols_number = columns m, indexes_m = fst (CompressIndexes c ?idx []),
             values_m = cv\<rparr>"
  have a: "Compress_matrix c m 0 = Inr ?a"
    using cv by (simp add: Compress_matrix_def csr Let_def split: prod.splits)
  have "length ?idx < 2 ^ 32"
    using nz by (simp add: length_vector_positions INT_MAX_def)
  with idx have "DecompressIndexes c (fst (CompressIndexes c ?idx [])) (resize (length ?idx) [])
      = ?idx"
    by (rule streamvbyte_contract_round_trip)
  then have di: "DecompressIndexes c (indexes_m ?a) (resize (nonzero_m ?a) []) = ?idx"
    by simp
  from dv have dv': "DecompressValues c (values_m ?a) (resize (nonzero_m ?a) []) = Inr ?vals"
    by simp
  have inb: "\<forall>x\<in>set ?idx. unat x < rows_number ?a * cols_number ?a"
  proof
    fix x
    assume "x \<in> set ?idx"
    then obtain k where "k \<in> set ?ks" and "x = of_nat k" by auto
    then show "unat x < rows_number ?a * cols_number ?a"
      using unat_of_nat32_le [of k] vector_positions_bound [of k ?es] len by simp
  qed
  have "ConvertFromCSR ?idx ?vals ?a =
      Inr (scatter_dense (rows_number ?a) (cols_number ?a) ?idx ?vals)"
    using dims(2) inb by (intro ConvertFromCSR_closed) simp_all
  also have "scatter_dense (rows_number ?a) (cols_number ?a) ?idx ?vals =
      \<lparr>rows = rows m, columns = columns m, elements = map normalize_zero ?es\<rparr>"
    using scatter_dense_positions [of "columns m" ?es "rows m"] dims len by simp
  finally have "Decompress_matrix c ?a = Inr (m\<lparr>elements := map normalize_zero ?es\<rparr>)"
    using di dv' by (simp add: Decompress_matrix_def)
  with a show ?thesis by blast
qed

theorem general_matrix_round_trip_witness:
  "streamvbyte_contract raw_codecs \<and> fpzip_lossless raw_codecs \<and>
   wf_matrix \<lparr>rows = 2, columns = 2, elements = [0, 0x3F800000, 0x80000000, 0x40000000]\<rparr> \<and>
   nonZeros [0, 0x3F800000, 0x80000000, 0x40000000] = 2 \<and>
   Compress_matrix raw_codecs
       \<lparr>rows = 2, columns = 2, elements = [0, 0x3F800000, 0x80000000, 0x40000000]\<rparr> 0 =
     Inr \<lparr>is_valid_m = True, nonzero_m = 2, rows_number = 2, cols_number = 2,
          indexes_m = raw_encode [1, 3] @ replicate 16 0,
          values_m = bytes_of_word 2 @ raw_encode [0x3F800000, 0x40000000] @ [1]\<rparr> \<and>
   Decompress_matrix raw_codecs
     \<lparr>is_valid_m = True, nonzero_m = 2, rows_number = 2, cols_number = 2,
      indexes_m = raw_encode [1, 3] @ replicate 16 0,
      values_m = bytes_of_word 2 @ raw_encode [0x3F800000, 0x40000000] @ [1]\<rparr> =
     Inr \<lparr>rows = 2, columns = 2, elements = [0, 0x3F800000, 0, 0x40000000]\<rparr>"
proof -
  let ?m = "\<lparr>rows = 2, columns = 2, elements = [0, 0x3F800000, 0x80000000, 0x40000000]\<rparr>"
  let ?a = "\<lparr>is_valid_m = True, nonzero_m = 2, rows_number = 2, cols_number = 2,
          indexes_m = raw_encode [1, 3] @ replicate 16 0,
          values_m = bytes_of_word 2 @ raw_encode [0x3F800000, 0x40000000] @ [1]\<rparr>"
  have i: "streamvbyte_contract raw_codecs" by (rule raw_streamvbyte_contract)
  have l: "fpzip_lossless raw_codecs" by (rule raw_fpzip_lossless)
  have w: "wf_matrix ?m" by (simp add: wf_matrix_def)
  have n: "nonZeros [0, 0x3F800000, 0x80000000, 0x40000000] = 2"
    by (simp add: nonZeros_def float_ne_zero_def)
  have c: "Compress_matrix raw_codecs ?m 0 = Inr ?a"
    by (simp add: Compress_matrix_def ConvertToCSR_def loop_simps at_def float_ne_zero_def
        INT_MAX_def raw_CompressIndexes raw_CompressValues)
  from general_matrix_round_trip [OF i l w] n c
  have "Decompress_matrix raw_codecs ?a =
      Inr (?m\<lparr>elements := map normalize_zero (elements ?m)\<rparr>)"
    by (auto simp add: INT_MAX_def)
  then have "Decompress_matrix raw_codecs ?a =
      Inr \<lparr>rows = 2, columns = 2, elements = [0, 0x3F800000, 0, 0x40000000]\<rparr>"
    by (simp add: normalize_zero_def float_ne_zero_def)
  with i l w n c show ?thesis by blast
qed

end
